theory Spec2Isabelle
  imports Complex_Main "HOL-Library.AList"
begin

section \<open>The benchmark drivers \<^verbatim>\<open>task-5.py\<close> and \<^verbatim>\<open>task-6.py\<close>\<close>

text \<open>
  Both files define a class \<^verbatim>\<open>DatabasePerformanceTester\<close> with the same methods; they
  differ in the SQL text (\<^verbatim>\<open>task-6.py\<close> adds \<^verbatim>\<open>ORDER BY id\<close> to every sub-select), in the
  index handling and in the final report. The embedding keeps one definition per method
  and takes the file as a parameter of type \<open>variant\<close> where the SQL differs.

  What the program does not contain is modelled as its environment:
  \<^item> the wall clock (\<^verbatim>\<open>time.time()\<close>, \<^verbatim>\<open>datetime.now()\<close>), the random generator, the
    failures of the database client and the order of an unordered scan are oracles,
    read at the number of the current interaction (\<open>step\<close>);
  \<^item> the table \<^verbatim>\<open>performance_test\<close> is the list of its rows together with the next value
    of the \<^verbatim>\<open>SERIAL\<close> sequence; columns are never \<^verbatim>\<open>NULL\<close>; an insertion whose id is
    already in the table is refused (\<^verbatim>\<open>PRIMARY KEY\<close>);
  \<^item> there is one connection and nothing is rolled back, so \<^verbatim>\<open>commit()\<close> changes no row;
    like every call of the client it may raise;
  \<^item> an exception is a value \<open>Inl e\<close>, returned with the state in which it was raised: it
    ends every method but \<^verbatim>\<open>create_indexes\<close> and \<^verbatim>\<open>drop_indexes\<close>, which catch it;
  \<^item> times are real numbers (the rounding of binary floating point is not modelled);
  \<^item> record counts and string lengths are natural numbers;
  \<^item> a line of the log file is a value of type \<open>message\<close>: the constructor stands for the
    format string of the source, its arguments for the values formatted into it. Writing
    to the log file and to the console does not fail.
  \<^verbatim>\<open>create_test_table\<close>, \<^verbatim>\<open>close\<close> and \<^verbatim>\<open>main\<close> are not modelled.
\<close>

subsection \<open>Data model\<close>

record row =
  row_id :: nat
  name :: string
  description :: string
  created_at :: real

datatype variant = Baseline | Indexed

datatype operation = Insert | Select | Update | Delete

text \<open>The dictionary \<^verbatim>\<open>{'Insert': .., 'Select': .., 'Update': .., 'Delete': ..}\<close> of one tier.\<close>

record tier_result =
  res_Insert :: real
  res_Select :: real
  res_Update :: real
  res_Delete :: real

fun op_time :: "tier_result \<Rightarrow> operation \<Rightarrow> real" where
  "op_time r Insert = res_Insert r"
| "op_time r Select = res_Select r"
| "op_time r Update = res_Update r"
| "op_time r Delete = res_Delete r"

text \<open>
  A Python dictionary keyed by the tier size: an association list in insertion order.
  \<open>AList.update\<close> overwrites the value of a key that is present, in place, and appends a
  new key at the end, as \<^verbatim>\<open>results[size] = ...\<close> does.
\<close>

type_synonym results = "(nat \<times> tier_result) list"

datatype exn = DbError string | ZeroDivisionError | KeyError nat

datatype ordering = Unordered | OrderById

datatype stmt =
    CreateIndex string
  | DropIndex string
  | InsertRow string string real
  | SelectLimit ordering nat
  | UpdateLimit ordering nat
  | DeleteLimit ordering nat
  | TruncateRestart

datatype message =
    MsgTesting nat
  | MsgOpTime operation nat real
  | MsgPhaseWithout
  | MsgPhaseWith
  | MsgIndexesCreated
  | MsgCreateError exn
  | MsgIndexesDropped
  | MsgDropError exn
  | MsgComparisonTitle
  | MsgComparisonHeader
  | MsgRule
  | MsgComparisonRow nat operation real real real
  | MsgSummaryTitle
  | MsgSummaryHeader
  | MsgSummaryRow nat real real real real

record env =
  clock :: "nat \<Rightarrow> real"
  draw :: "nat \<Rightarrow> nat"
  fault :: "nat \<Rightarrow> string option"
  heap_rank :: "nat \<Rightarrow> row \<Rightarrow> nat"

record state =
  table :: "row list"
  next_id :: nat
  indexes :: "string list"
  log_file :: "message list"
  step :: nat

subsection \<open>The collaborators: clock, random generator, database, log\<close>

definition time_time :: "env \<Rightarrow> state \<Rightarrow> real \<times> state" where
  "time_time E s = (clock E (step s), s\<lparr>step := Suc (step s)\<rparr>)"

definition datetime_now :: "env \<Rightarrow> state \<Rightarrow> real \<times> state" where
  "datetime_now E s = (clock E (step s), s\<lparr>step := Suc (step s)\<rparr>)"

definition ascii_lowercase :: string where
  "ascii_lowercase = ''abcdefghijklmnopqrstuvwxyz''"

text \<open>
  \<^verbatim>\<open>random.choices(population, k=k)\<close> draws \<open>k\<close> times with replacement; every draw is the
  element at an index below the length of the population.
\<close>

definition random_choices :: "env \<Rightarrow> 'a list \<Rightarrow> nat \<Rightarrow> state \<Rightarrow> 'a list \<times> state" where
  "random_choices E population k s =
     (map (\<lambda>i. population ! (draw E (step s + i) mod length population)) [0..<k],
      s\<lparr>step := step s + k\<rparr>)"

text \<open>The sub-select \<^verbatim>\<open>SELECT .. FROM performance_test [ORDER BY id]\<close> before its \<^verbatim>\<open>LIMIT\<close>.\<close>

fun scan :: "ordering \<Rightarrow> (row \<Rightarrow> nat) \<Rightarrow> row list \<Rightarrow> row list" where
  "scan Unordered rk t = sort_key rk t"
| "scan OrderById rk t = sort_key row_id t"

definition selected :: "ordering \<Rightarrow> (row \<Rightarrow> nat) \<Rightarrow> nat \<Rightarrow> row list \<Rightarrow> row list" where
  "selected ob rk n t = take n (scan ob rk t)"

definition idx_name :: string where
  "idx_name = ''idx_performance_test_name''"

definition idx_created_at :: string where
  "idx_created_at = ''idx_performance_test_created_at''"

text \<open>The effect of a statement that the server accepts.\<close>

fun run_stmt :: "(row \<Rightarrow> nat) \<Rightarrow> stmt \<Rightarrow> state \<Rightarrow> (exn + row list) \<times> state" where
  "run_stmt rk (CreateIndex i) s =
     (Inr [], if i \<in> set (indexes s) then s else s\<lparr>indexes := indexes s @ [i]\<rparr>)"
| "run_stmt rk (DropIndex i) s =
     (Inr [], s\<lparr>indexes := filter (\<lambda>j. j \<noteq> i) (indexes s)\<rparr>)"
| "run_stmt rk (InsertRow n d c) s =
     (if next_id s \<in> set (map row_id (table s))
      then (Inl (DbError ''duplicate key value violates unique constraint''), s)
      else (Inr [],
            s\<lparr>table := table s @ [\<lparr>row_id = next_id s, name = n, description = d, created_at = c\<rparr>],
              next_id := Suc (next_id s)\<rparr>))"
| "run_stmt rk (SelectLimit ob n) s = (Inr (selected ob rk n (table s)), s)"
| "run_stmt rk (UpdateLimit ob n) s =
     (Inr [],
      s\<lparr>table := map (\<lambda>r. if row_id r \<in> set (map row_id (selected ob rk n (table s)))
                           then r\<lparr>description := description r @ ''_updated''\<rparr> else r)
                     (table s)\<rparr>)"
| "run_stmt rk (DeleteLimit ob n) s =
     (Inr [],
      s\<lparr>table := filter (\<lambda>r. row_id r \<notin> set (map row_id (selected ob rk n (table s))))
                        (table s)\<rparr>)"
| "run_stmt rk TruncateRestart s = (Inr [], s\<lparr>table := [], next_id := 1\<rparr>)"

text \<open>
  \<^verbatim>\<open>self.cursor.execute(..)\<close>: the client raises when the environment says so, and then
  the statement has no effect; otherwise the statement runs. The value is the result set.
\<close>

definition execute :: "env \<Rightarrow> stmt \<Rightarrow> state \<Rightarrow> (exn + row list) \<times> state" where
  "execute E q s =
     (case fault E (step s) of
        Some msg \<Rightarrow> (Inl (DbError msg), s\<lparr>step := Suc (step s)\<rparr>)
      | None \<Rightarrow> run_stmt (heap_rank E (step s)) q (s\<lparr>step := Suc (step s)\<rparr>))"

definition commit :: "env \<Rightarrow> state \<Rightarrow> (exn + unit) \<times> state" where
  "commit E s =
     (case fault E (step s) of
        Some msg \<Rightarrow> (Inl (DbError msg), s\<lparr>step := Suc (step s)\<rparr>)
      | None \<Rightarrow> (Inr (), s\<lparr>step := Suc (step s)\<rparr>))"

definition log_result :: "message \<Rightarrow> state \<Rightarrow> state" where
  "log_result m s = s\<lparr>log_file := log_file s @ [m]\<rparr>"

definition order_of :: "variant \<Rightarrow> ordering" where
  "order_of v = (case v of Baseline \<Rightarrow> Unordered | Indexed \<Rightarrow> OrderById)"

subsection \<open>The methods of \<^verbatim>\<open>DatabasePerformanceTester\<close>\<close>

text \<open>\<^verbatim>\<open>generate_random_string(self, length=10)\<close>: \<open>None\<close> is the call without an argument.\<close>

definition generate_random_string :: "env \<Rightarrow> nat option \<Rightarrow> state \<Rightarrow> string \<times> state" where
  "generate_random_string E len s =
     random_choices E ascii_lowercase (case len of None \<Rightarrow> 10 | Some k \<Rightarrow> k) s"

text \<open>The body of \<^verbatim>\<open>for _ in range(num_records)\<close> in \<^verbatim>\<open>insert_data\<close>, repeated.\<close>

fun insert_loop :: "env \<Rightarrow> nat \<Rightarrow> state \<Rightarrow> (exn + unit) \<times> state" where
  "insert_loop E 0 s = (Inr (), s)"
| "insert_loop E (Suc k) s =
     (case generate_random_string E None s of (nm, s1) \<Rightarrow>
      case generate_random_string E (Some 50) s1 of (ds, s2) \<Rightarrow>
      case datetime_now E s2 of (ca, s3) \<Rightarrow>
      (case execute E (InsertRow nm ds ca) s3 of
         (Inl e, s4) \<Rightarrow> (Inl e, s4)
       | (Inr _, s4) \<Rightarrow> insert_loop E k s4))"

definition insert_data :: "env \<Rightarrow> nat \<Rightarrow> state \<Rightarrow> (exn + real) \<times> state" where
  "insert_data E num_records s =
     (case time_time E s of (start_time, s1) \<Rightarrow>
      (case insert_loop E num_records s1 of
         (Inl e, s2) \<Rightarrow> (Inl e, s2)
       | (Inr _, s2) \<Rightarrow>
           (case commit E s2 of
              (Inl e, s3) \<Rightarrow> (Inl e, s3)
            | (Inr _, s3) \<Rightarrow>
                (case time_time E s3 of (t, s4) \<Rightarrow> (Inr (t - start_time), s4)))))"

text \<open>
  \<^verbatim>\<open>select_data\<close> fetches the rows into the local \<^verbatim>\<open>results\<close> and drops them.
  \<open>select_fetch\<close> is the method up to and including \<^verbatim>\<open>fetchall()\<close>, so that the rows
  it read can be named; \<open>select_data\<close> is the whole method.
\<close>

definition select_fetch :: "variant \<Rightarrow> env \<Rightarrow> nat \<Rightarrow> state \<Rightarrow> (exn + real \<times> row list) \<times> state" where
  "select_fetch v E num_records s =
     (case time_time E s of (start_time, s1) \<Rightarrow>
      (case execute E (SelectLimit (order_of v) num_records) s1 of
         (Inl e, s2) \<Rightarrow> (Inl e, s2)
       | (Inr results, s2) \<Rightarrow> (Inr (start_time, results), s2)))"

definition select_data :: "variant \<Rightarrow> env \<Rightarrow> nat \<Rightarrow> state \<Rightarrow> (exn + real) \<times> state" where
  "select_data v E num_records s =
     (case select_fetch v E num_records s of
        (Inl e, s2) \<Rightarrow> (Inl e, s2)
      | (Inr (start_time, results), s2) \<Rightarrow>
          (case time_time E s2 of (t, s3) \<Rightarrow> (Inr (t - start_time), s3)))"

definition update_data :: "variant \<Rightarrow> env \<Rightarrow> nat \<Rightarrow> state \<Rightarrow> (exn + real) \<times> state" where
  "update_data v E num_records s =
     (case time_time E s of (start_time, s1) \<Rightarrow>
      (case execute E (UpdateLimit (order_of v) num_records) s1 of
         (Inl e, s2) \<Rightarrow> (Inl e, s2)
       | (Inr _, s2) \<Rightarrow>
           (case commit E s2 of
              (Inl e, s3) \<Rightarrow> (Inl e, s3)
            | (Inr _, s3) \<Rightarrow>
                (case time_time E s3 of (t, s4) \<Rightarrow> (Inr (t - start_time), s4)))))"

definition delete_data :: "variant \<Rightarrow> env \<Rightarrow> nat \<Rightarrow> state \<Rightarrow> (exn + real) \<times> state" where
  "delete_data v E num_records s =
     (case time_time E s of (start_time, s1) \<Rightarrow>
      (case execute E (DeleteLimit (order_of v) num_records) s1 of
         (Inl e, s2) \<Rightarrow> (Inl e, s2)
       | (Inr _, s2) \<Rightarrow>
           (case commit E s2 of
              (Inl e, s3) \<Rightarrow> (Inl e, s3)
            | (Inr _, s3) \<Rightarrow>
                (case time_time E s3 of (t, s4) \<Rightarrow> (Inr (t - start_time), s4)))))"

text \<open>
  \<^verbatim>\<open>create_indexes\<close> and \<^verbatim>\<open>drop_indexes\<close> (\<^verbatim>\<open>task-6.py\<close>): the \<^verbatim>\<open>try\<close> block, and the
  method with its handler \<^verbatim>\<open>except Exception as e\<close>. Every value of type \<open>exn\<close> is an
  instance of \<^verbatim>\<open>Exception\<close>.
\<close>

definition create_indexes_try :: "env \<Rightarrow> state \<Rightarrow> (exn + unit) \<times> state" where
  "create_indexes_try E s =
     (case execute E (CreateIndex idx_name) s of
        (Inl e, s1) \<Rightarrow> (Inl e, s1)
      | (Inr _, s1) \<Rightarrow>
          (case execute E (CreateIndex idx_created_at) s1 of
             (Inl e, s2) \<Rightarrow> (Inl e, s2)
           | (Inr _, s2) \<Rightarrow>
               (case commit E s2 of
                  (Inl e, s3) \<Rightarrow> (Inl e, s3)
                | (Inr _, s3) \<Rightarrow> (Inr (), log_result MsgIndexesCreated s3))))"

definition create_indexes :: "env \<Rightarrow> state \<Rightarrow> (exn + unit) \<times> state" where
  "create_indexes E s =
     (case create_indexes_try E s of
        (Inl e, s1) \<Rightarrow> (Inr (), log_result (MsgCreateError e) s1)
      | (Inr u, s1) \<Rightarrow> (Inr u, s1))"

definition drop_indexes_try :: "env \<Rightarrow> state \<Rightarrow> (exn + unit) \<times> state" where
  "drop_indexes_try E s =
     (case execute E (DropIndex idx_name) s of
        (Inl e, s1) \<Rightarrow> (Inl e, s1)
      | (Inr _, s1) \<Rightarrow>
          (case execute E (DropIndex idx_created_at) s1 of
             (Inl e, s2) \<Rightarrow> (Inl e, s2)
           | (Inr _, s2) \<Rightarrow>
               (case commit E s2 of
                  (Inl e, s3) \<Rightarrow> (Inl e, s3)
                | (Inr _, s3) \<Rightarrow> (Inr (), log_result MsgIndexesDropped s3))))"

definition drop_indexes :: "env \<Rightarrow> state \<Rightarrow> (exn + unit) \<times> state" where
  "drop_indexes E s =
     (case drop_indexes_try E s of
        (Inl e, s1) \<Rightarrow> (Inr (), log_result (MsgDropError e) s1)
      | (Inr u, s1) \<Rightarrow> (Inr u, s1))"

text \<open>
  The body of \<^verbatim>\<open>for size in test_sizes\<close> (\<^verbatim>\<open>run_performance_tests\<close> in \<^verbatim>\<open>task-5.py\<close>,
  \<^verbatim>\<open>_run_test_cycle\<close> in \<^verbatim>\<open>task-6.py\<close>; the two bodies are the same text), up to the
  dictionary of the four times. The specification calls it \<^verbatim>\<open>run_tier\<close>.
\<close>

definition run_tier :: "variant \<Rightarrow> env \<Rightarrow> nat \<Rightarrow> state \<Rightarrow> (exn + tier_result) \<times> state" where
  "run_tier v E sz s =
     (case execute E TruncateRestart (log_result (MsgTesting sz) s) of
        (Inl e, s1) \<Rightarrow> (Inl e, s1)
      | (Inr _, s1) \<Rightarrow>
     (case insert_data E sz s1 of
        (Inl e, s2) \<Rightarrow> (Inl e, s2)
      | (Inr insert_time, s2) \<Rightarrow>
     (case select_data v E sz (log_result (MsgOpTime Insert sz insert_time) s2) of
        (Inl e, s3) \<Rightarrow> (Inl e, s3)
      | (Inr select_time, s3) \<Rightarrow>
     (case update_data v E sz (log_result (MsgOpTime Select sz select_time) s3) of
        (Inl e, s4) \<Rightarrow> (Inl e, s4)
      | (Inr update_time, s4) \<Rightarrow>
     (case delete_data v E sz (log_result (MsgOpTime Update sz update_time) s4) of
        (Inl e, s5) \<Rightarrow> (Inl e, s5)
      | (Inr delete_time, s5) \<Rightarrow>
          (Inr \<lparr>res_Insert = insert_time, res_Select = select_time,
                res_Update = update_time, res_Delete = delete_time\<rparr>,
           log_result (MsgOpTime Delete sz delete_time) s5))))))"

fun run_test_cycle_from ::
  "variant \<Rightarrow> env \<Rightarrow> nat list \<Rightarrow> results \<Rightarrow> state \<Rightarrow> (exn + results) \<times> state" where
  "run_test_cycle_from v E [] results s = (Inr results, s)"
| "run_test_cycle_from v E (sz # rest) results s =
     (case run_tier v E sz s of
        (Inl e, s1) \<Rightarrow> (Inl e, s1)
      | (Inr r, s1) \<Rightarrow> run_test_cycle_from v E rest (AList.update sz r results) s1)"

definition run_test_cycle :: "variant \<Rightarrow> env \<Rightarrow> nat list \<Rightarrow> state \<Rightarrow> (exn + results) \<times> state" where
  "run_test_cycle v E test_sizes s = run_test_cycle_from v E test_sizes [] s"

text \<open>Line 204 of \<^verbatim>\<open>task-6.py\<close>; Python raises on a float division by \<^verbatim>\<open>0.0\<close>.\<close>

definition diff_percent :: "real \<Rightarrow> real \<Rightarrow> exn + real" where
  "diff_percent without_index with_index =
     (if without_index = 0 then Inl ZeroDivisionError
      else Inr (((without_index - with_index) / without_index) * 100))"

text \<open>The inner loop \<^verbatim>\<open>for op in ['Insert', 'Select', 'Update', 'Delete']\<close>.\<close>

fun comparison_ops ::
  "results \<Rightarrow> results \<Rightarrow> nat \<Rightarrow> operation list \<Rightarrow> state \<Rightarrow> (exn + unit) \<times> state" where
  "comparison_ops rwo rwi sz [] s = (Inr (), s)"
| "comparison_ops rwo rwi sz (opn # ops) s =
     (case map_of rwo sz of
        None \<Rightarrow> (Inl (KeyError sz), s)
      | Some a \<Rightarrow>
     (case map_of rwi sz of
        None \<Rightarrow> (Inl (KeyError sz), s)
      | Some b \<Rightarrow>
     (case diff_percent (op_time a opn) (op_time b opn) of
        Inl e \<Rightarrow> (Inl e, s)
      | Inr d \<Rightarrow>
          comparison_ops rwo rwi sz ops
            (log_result (MsgComparisonRow sz opn (op_time a opn) (op_time b opn) d) s))))"

text \<open>The outer loop \<^verbatim>\<open>for size in results_without_index.keys()\<close>.\<close>

fun comparison_sizes ::
  "results \<Rightarrow> results \<Rightarrow> nat list \<Rightarrow> state \<Rightarrow> (exn + unit) \<times> state" where
  "comparison_sizes rwo rwi [] s = (Inr (), s)"
| "comparison_sizes rwo rwi (sz # rest) s =
     (case comparison_ops rwo rwi sz [Insert, Select, Update, Delete] s of
        (Inl e, s1) \<Rightarrow> (Inl e, s1)
      | (Inr _, s1) \<Rightarrow> comparison_sizes rwo rwi rest s1)"

definition print_comparison_table :: "results \<Rightarrow> results \<Rightarrow> state \<Rightarrow> (exn + unit) \<times> state" where
  "print_comparison_table results_without_index results_with_index s =
     comparison_sizes results_without_index results_with_index
       (map fst results_without_index)
       (log_result MsgRule (log_result MsgComparisonHeader (log_result MsgComparisonTitle s)))"

text \<open>\<^verbatim>\<open>run_performance_tests\<close> of \<^verbatim>\<open>task-6.py\<close>; \<^verbatim>\<open>open(self.log_file, 'w')\<close> empties the log.\<close>

definition run_performance_tests_task6 ::
  "env \<Rightarrow> nat list \<Rightarrow> state \<Rightarrow> (exn + results \<times> results) \<times> state" where
  "run_performance_tests_task6 E test_sizes s =
     (case run_test_cycle Indexed E test_sizes (log_result MsgPhaseWithout (s\<lparr>log_file := []\<rparr>)) of
        (Inl e, s1) \<Rightarrow> (Inl e, s1)
      | (Inr results_without_index, s1) \<Rightarrow>
     (case create_indexes E s1 of
        (Inl e, s2) \<Rightarrow> (Inl e, s2)
      | (Inr _, s2) \<Rightarrow>
     (case run_test_cycle Indexed E test_sizes (log_result MsgPhaseWith s2) of
        (Inl e, s3) \<Rightarrow> (Inl e, s3)
      | (Inr results_with_index, s3) \<Rightarrow>
     (case drop_indexes E s3 of
        (Inl e, s4) \<Rightarrow> (Inl e, s4)
      | (Inr _, s4) \<Rightarrow>
     (case print_comparison_table results_without_index results_with_index s4 of
        (Inl e, s5) \<Rightarrow> (Inl e, s5)
      | (Inr _, s5) \<Rightarrow> (Inr (results_without_index, results_with_index), s5))))))"

text \<open>\<^verbatim>\<open>run_performance_tests\<close> of \<^verbatim>\<open>task-5.py\<close>, with its summary table.\<close>

definition summary_row :: "nat \<times> tier_result \<Rightarrow> message" where
  "summary_row p =
     MsgSummaryRow (fst p) (res_Insert (snd p)) (res_Select (snd p))
       (res_Update (snd p)) (res_Delete (snd p))"

definition run_performance_tests_task5 ::
  "env \<Rightarrow> nat list \<Rightarrow> state \<Rightarrow> (exn + results) \<times> state" where
  "run_performance_tests_task5 E test_sizes s =
     (case run_test_cycle Baseline E test_sizes (s\<lparr>log_file := []\<rparr>) of
        (Inl e, s1) \<Rightarrow> (Inl e, s1)
      | (Inr results, s1) \<Rightarrow>
          (Inr results,
           fold (\<lambda>p. log_result (summary_row p)) results
             (log_result MsgRule (log_result MsgSummaryHeader (log_result MsgSummaryTitle s1)))))"

subsection \<open>The report as the specification describes it\<close>

text \<open>
  One row for every pair of a size and an operation: for each size of the results without
  indexes, in their order, the four operations in the order Insert, Select, Update,
  Delete, each with the two times and their percent difference.
\<close>

definition comparison_row :: "tier_result \<Rightarrow> tier_result \<Rightarrow> nat \<Rightarrow> operation \<Rightarrow> message" where
  "comparison_row a b sz opn =
     MsgComparisonRow sz opn (op_time a opn) (op_time b opn)
       ((op_time a opn - op_time b opn) / op_time a opn * 100)"

definition spec_report_rows :: "results \<Rightarrow> results \<Rightarrow> message list" where
  "spec_report_rows rwo rwi =
     concat (map (\<lambda>p. case map_of rwi (fst p) of
                         None \<Rightarrow> []
                       | Some b \<Rightarrow> map (comparison_row (snd p) b (fst p))
                                    [Insert, Select, Update, Delete])
                 rwo)"

subsection \<open>Conditions on the environment\<close>

text \<open>The environment in which the database client never raises.\<close>

definition no_faults :: "env \<Rightarrow> bool" where
  "no_faults E = (\<forall>k. fault E k = None)"

text \<open>A clock whose readings are all equal: no time passes between two readings.\<close>

definition frozen_clock :: "env \<Rightarrow> bool" where
  "frozen_clock E = (\<forall>j k. clock E j = clock E k)"

subsection \<open>Sample data\<close>

text \<open>Concrete states, environments and timings at which the theorems below are evaluated.\<close>

definition state_empty :: state where
  "state_empty = \<lparr>table = [], next_id = 1, indexes = [], log_file = [], step = 0\<rparr>"

definition times_2 :: tier_result where
  "times_2 = \<lparr>res_Insert = 2, res_Select = 2, res_Update = 2, res_Delete = 2\<rparr>"

definition times_1 :: tier_result where
  "times_1 = \<lparr>res_Insert = 1, res_Select = 1, res_Update = 1, res_Delete = 1\<rparr>"

definition times_0 :: tier_result where
  "times_0 = \<lparr>res_Insert = 0, res_Select = 0, res_Update = 0, res_Delete = 0\<rparr>"


text \<open>An environment in which nothing fails; the clock advances at every reading.\<close>

definition env_steady :: env where
  "env_steady = \<lparr>clock = (\<lambda>k. real k), draw = (\<lambda>k. k), fault = (\<lambda>k. None),
     heap_rank = (\<lambda>k r. 0)\<rparr>"

text \<open>The first statement sent to the database is refused.\<close>

definition env_denied :: env where
  "env_denied = \<lparr>clock = (\<lambda>k. real k), draw = (\<lambda>k. k),
     fault = (\<lambda>k. if k = 0 then Some ''permission denied'' else None),
     heap_rank = (\<lambda>k r. 0)\<rparr>"

text \<open>A table of three rows, stored in an order that is not the order of their ids.\<close>

definition row_a :: row where
  "row_a = \<lparr>row_id = 7, name = ''anna'', description = ''first'', created_at = 0\<rparr>"
definition row_b :: row where
  "row_b = \<lparr>row_id = 3, name = ''bob'', description = ''second'', created_at = 0\<rparr>"
definition row_c :: row where
  "row_c = \<lparr>row_id = 5, name = ''cleo'', description = ''third'', created_at = 0\<rparr>"

definition state_three :: state where
  "state_three =
     \<lparr>table = [row_a, row_b, row_c], next_id = 8, indexes = [], log_file = [], step = 0\<rparr>"

text \<open>An environment whose unordered scans return the rows by descending id.\<close>

definition env_reversed :: env where
  "env_reversed = \<lparr>clock = (\<lambda>k. real k), draw = (\<lambda>k. k), fault = (\<lambda>k. None),
     heap_rank = (\<lambda>k r. 10 - row_id r)\<rparr>"

text \<open>The wall clock is set back after its first reading.\<close>

definition env_set_back :: env where
  "env_set_back = \<lparr>clock = (\<lambda>k. if k = 0 then 5 else 3), draw = (\<lambda>k. k), fault = (\<lambda>k. None),
     heap_rank = (\<lambda>k r. 0)\<rparr>"

text \<open>\<open>state_three\<close> after the heading of the tier of size 2 and the truncation.\<close>

definition state_truncated :: state where
  "state_truncated =
     \<lparr>table = [], next_id = 1, indexes = [], log_file = [MsgTesting 2], step = 1\<rparr>"

text \<open>An environment in which nothing fails and the clock does not advance.\<close>

definition env_frozen :: env where
  "env_frozen = \<lparr>clock = (\<lambda>k. 0), draw = (\<lambda>k. k), fault = (\<lambda>k. None),
     heap_rank = (\<lambda>k r. 0)\<rparr>"

section \<open>Properties\<close>

subsection \<open>What each collaborator and each method leaves unchanged\<close>

lemma set_scan: "set (scan ob rk t) = set t"
  by (cases ob) simp_all

lemma length_scan: "length (scan ob rk t) = length t"
  by (cases ob) simp_all

lemma distinct_scan: "distinct (scan ob rk t) = distinct t"
  by (cases ob) simp_all

lemma length_selected: "length (selected ob rk n t) = min n (length t)"
  by (simp add: selected_def length_scan min.commute)

lemma set_selected_subset: "set (selected ob rk n t) \<subseteq> set t"
  using set_take_subset [of n "scan ob rk t"] by (simp add: selected_def set_scan)

lemma selected_all: "length t \<le> n \<Longrightarrow> set (selected ob rk n t) = set t"
  by (simp add: selected_def length_scan set_scan)

lemma selected_0: "selected ob rk 0 t = []"
  by (simp add: selected_def)

lemma time_time_table:
  "time_time E s = (t, s1) \<Longrightarrow>
     table s1 = table s \<and> next_id s1 = next_id s \<and> indexes s1 = indexes s
     \<and> log_file s1 = log_file s \<and> step s1 = Suc (step s)
     \<and> t = clock E (step s)"
  by (auto simp: time_time_def)

lemma commit_frame:
  "commit E s = (r, s1) \<Longrightarrow>
     table s1 = table s \<and> next_id s1 = next_id s \<and> indexes s1 = indexes s
     \<and> log_file s1 = log_file s \<and> step s1 = Suc (step s)"
  by (auto simp: commit_def split: option.splits)

lemma execute_Inr:
  "execute E q s = (Inr rs, s1) \<Longrightarrow>
     fault E (step s) = None
     \<and> run_stmt (heap_rank E (step s)) q (s\<lparr>step := Suc (step s)\<rparr>) = (Inr rs, s1)"
  by (auto simp: execute_def split: option.splits)

lemma execute_Inl_table:
  "execute E q s = (Inl e, s1) \<Longrightarrow>
     table s1 = table s \<and> next_id s1 = next_id s \<and> indexes s1 = indexes s
     \<and> log_file s1 = log_file s \<and> step s1 = Suc (step s)"
  by (cases q) (auto simp: execute_def split: option.splits if_splits)

lemma select_fetch_table: "table (snd (select_fetch v E n s)) = table s"
  by (auto simp: select_fetch_def time_time_def execute_def split: option.splits prod.splits sum.splits)

lemma select_data_table: "table (snd (select_data v E n s)) = table s"
  by (auto simp: select_data_def select_fetch_def time_time_def execute_def split: option.splits prod.splits sum.splits)

lemma select_fetch_rows:
  "select_fetch v E n s = (Inr (st, rs), s2) \<Longrightarrow>
     rs = selected (order_of v) (heap_rank E (Suc (step s))) n (table s)"
  by (auto simp: select_fetch_def time_time_def execute_def split: option.splits prod.splits sum.splits)

lemma update_data_Inr: "update_data v E n s = (Inr t, s') \<Longrightarrow>
  table s' = map (\<lambda>r. if row_id r \<in> set (map row_id (selected (order_of v) (heap_rank E (Suc (step s))) n (table s)))
                           then r\<lparr>description := description r @ ''_updated''\<rparr> else r) (table s)
  \<and> next_id s' = next_id s \<and> indexes s' = indexes s \<and> log_file s' = log_file s \<and> step s' = Suc (Suc (Suc (Suc (step s))))
  \<and> t = clock E (Suc (Suc (Suc (step s)))) - clock E (step s)"
  by (auto simp: update_data_def time_time_def execute_def commit_def split: option.splits prod.splits sum.splits)

lemma delete_data_Inr: "delete_data v E n s = (Inr t, s') \<Longrightarrow>
  table s' = filter (\<lambda>r. row_id r \<notin> set (map row_id (selected (order_of v) (heap_rank E (Suc (step s))) n (table s)))) (table s)
  \<and> next_id s' = next_id s \<and> indexes s' = indexes s \<and> log_file s' = log_file s \<and> step s' = Suc (Suc (Suc (Suc (step s))))
  \<and> t = clock E (Suc (Suc (Suc (step s)))) - clock E (step s)"
  by (auto simp: delete_data_def time_time_def execute_def commit_def split: option.splits prod.splits sum.splits)

lemma generate_random_string_frame:
  "generate_random_string E len s = (x, s1) \<Longrightarrow>
     table s1 = table s \<and> next_id s1 = next_id s \<and> indexes s1 = indexes s
     \<and> log_file s1 = log_file s"
  by (auto simp: generate_random_string_def random_choices_def)

lemma datetime_now_frame:
  "datetime_now E s = (x, s1) \<Longrightarrow>
     table s1 = table s \<and> next_id s1 = next_id s \<and> indexes s1 = indexes s
     \<and> log_file s1 = log_file s"
  by (auto simp: datetime_now_def)

lemma execute_insert_Inr:
  "execute E (InsertRow nm ds ca) s = (Inr rs, s1) \<Longrightarrow>
     table s1 = table s @ [\<lparr>row_id = next_id s, name = nm, description = ds, created_at = ca\<rparr>]
     \<and> next_id s1 = Suc (next_id s) \<and> indexes s1 = indexes s \<and> log_file s1 = log_file s"
  by (auto simp: execute_def split: option.splits if_splits)

lemma insert_loop_Inr:
  "insert_loop E n s = (Inr u, s') \<Longrightarrow>
     map row_id (table s') = map row_id (table s) @ [next_id s ..< next_id s + n]
     \<and> next_id s' = next_id s + n \<and> indexes s' = indexes s \<and> log_file s' = log_file s"
proof (induction n arbitrary: s)
  case 0
  then show ?case by simp
next
  case (Suc n)
  from Suc.prems obtain nm s1 ds s2 ca s3 rs s4 where
    g1: "generate_random_string E None s = (nm, s1)" and
    g2: "generate_random_string E (Some 50) s1 = (ds, s2)" and
    g3: "datetime_now E s2 = (ca, s3)" and
    ex: "execute E (InsertRow nm ds ca) s3 = (Inr rs, s4)" and
    lp: "insert_loop E n s4 = (Inr u, s')"
    by (auto split: prod.splits sum.splits)
  have "table s3 = table s" "next_id s3 = next_id s" "indexes s3 = indexes s"
    "log_file s3 = log_file s"
    using generate_random_string_frame [OF g1] generate_random_string_frame [OF g2]
      datetime_now_frame [OF g3] by simp_all
  with execute_insert_Inr [OF ex] have
    "map row_id (table s4) = map row_id (table s) @ [next_id s]"
    "next_id s4 = Suc (next_id s)" "indexes s4 = indexes s" "log_file s4 = log_file s"
    by simp_all
  with Suc.IH [OF lp] show ?case
    by (simp add: upt_rec [of "next_id s"])
qed

subsection \<open>The percent difference of the comparison report\<close>

text \<open>
  C4: for a without-index time \<open>w\<close> that is not zero and a with-index time \<open>i\<close>, the
  percent difference of the comparison report is \<open>(w - i) / w * 100\<close>, with its sign: for
  a positive \<open>w\<close> it is positive exactly when the run with indexes was faster. The row
  that the report logs for an operation carries this value. For \<open>w = 2.0\<close>, \<open>i = 1.0\<close> it
  is \<open>50\<close>, and for \<open>w = 1.0\<close>, \<open>i = 1.5\<close> it is \<open>- 50\<close>.
\<close>

theorem diff_percent_formula:
  "w \<noteq> 0 \<Longrightarrow>
     diff_percent w i = Inr ((w - i) / w * 100)
     \<and> (0 < w \<longrightarrow> (0 < (w - i) / w * 100) = (i < w))
     \<and> (map_of rwo sz = Some a \<and> map_of rwi sz = Some b \<and> op_time a opn = w
          \<and> op_time b opn = i \<longrightarrow>
        comparison_ops rwo rwi sz [opn] s =
          (Inr (), log_result (MsgComparisonRow sz opn w i ((w - i) / w * 100)) s))
     \<and> diff_percent 2 1 = Inr 50
     \<and> diff_percent 1 (3 / 2) = Inr (- 50)"
  by (simp add: diff_percent_def zero_less_divide_iff zero_less_mult_iff)

theorem diff_percent_formula_witness:
  "(2::real) \<noteq> 0 \<and> (0::real) < 2
   \<and> map_of [(10, times_2)] (10::nat) = Some times_2
   \<and> map_of [(10, times_1)] (10::nat) = Some times_1
   \<and> op_time times_2 Select = 2 \<and> op_time times_1 Select = 1
   \<and> diff_percent 2 1 = Inr 50
   \<and> (0 < ((2::real) - 1) / 2 * 100) = ((1::real) < 2)
   \<and> comparison_ops [(10, times_2)] [(10, times_1)] 10 [Select] state_empty =
       (Inr (), log_result (MsgComparisonRow 10 Select 2 1 50) state_empty)"
proof -
  have h: "(2::real) \<noteq> 0" by simp
  show ?thesis
    using diff_percent_formula [OF h, of 1 "[(10, times_2)]" 10 times_2 "[(10, times_1)]"
        times_1 Select state_empty]
    by (simp add: times_2_def times_1_def)
qed

subsection \<open>Random strings\<close>

lemma random_choices_in:
  "population \<noteq> [] \<Longrightarrow> c \<in> set (fst (random_choices E population k s)) \<Longrightarrow> c \<in> set population"
  by (auto simp: random_choices_def)

lemma length_random_choices: "length (fst (random_choices E population k s)) = k"
  by (simp add: random_choices_def)

text \<open>
  C9: \<^verbatim>\<open>generate_random_string(n)\<close> returns a string of exactly \<open>n\<close> characters, each of them
  one of the lowercase ASCII letters; called without an argument it returns a string of
  length 10.
\<close>

theorem generate_random_string_lowercase:
  "length (fst (generate_random_string E (Some n) s)) = n
   \<and> (\<forall>c \<in> set (fst (generate_random_string E (Some n) s)). c \<in> set ascii_lowercase)
   \<and> length (fst (generate_random_string E None s)) = 10
   \<and> (\<forall>c \<in> set (fst (generate_random_string E None s)). c \<in> set ascii_lowercase)"
proof -
  have ne: "ascii_lowercase \<noteq> []" by (simp add: ascii_lowercase_def)
  show ?thesis
    using random_choices_in [OF ne]
    by (auto simp: generate_random_string_def length_random_choices)
qed


theorem generate_random_string_lowercase_witness:
  "fst (generate_random_string env_steady (Some 3) state_empty) = ''abc''
   \<and> length (fst (generate_random_string env_steady (Some 3) state_empty)) = 3
   \<and> set ''abc'' \<subseteq> set ascii_lowercase
   \<and> fst (generate_random_string env_steady None state_empty) = ''abcdefghij''
   \<and> length (fst (generate_random_string env_steady None state_empty)) = 10"
proof -
  have a: "fst (generate_random_string env_steady (Some 3) state_empty) = ''abc''"
    by code_simp
  have b: "fst (generate_random_string env_steady None state_empty) = ''abcdefghij''"
    by code_simp
  show ?thesis
    using generate_random_string_lowercase [of env_steady 3 state_empty] a b
    by (simp add: ascii_lowercase_def)
qed

subsection \<open>Index creation and removal\<close>

lemma create_indexes_try_table: "table (snd (create_indexes_try E s)) = table s"
  by (auto simp: create_indexes_try_def execute_def commit_def log_result_def
      split: option.splits prod.splits sum.splits)

lemma drop_indexes_try_table: "table (snd (drop_indexes_try E s)) = table s"
  by (auto simp: drop_indexes_try_def execute_def commit_def log_result_def
      split: option.splits prod.splits sum.splits)

lemma create_indexes_try_log:
  "log_file (snd (create_indexes_try E s)) =
     (case fst (create_indexes_try E s) of Inl e \<Rightarrow> log_file s | Inr u \<Rightarrow> log_file s @ [MsgIndexesCreated])"
  by (auto simp: create_indexes_try_def execute_def commit_def log_result_def
      split: option.splits prod.splits sum.splits)

lemma drop_indexes_try_log:
  "log_file (snd (drop_indexes_try E s)) =
     (case fst (drop_indexes_try E s) of Inl e \<Rightarrow> log_file s | Inr u \<Rightarrow> log_file s @ [MsgIndexesDropped])"
  by (auto simp: drop_indexes_try_def execute_def commit_def log_result_def
      split: option.splits prod.splits sum.splits)

text \<open>
  C6: \<^verbatim>\<open>create_indexes\<close> and \<^verbatim>\<open>drop_indexes\<close> return normally whatever the database
  client does: when a call in the \<^verbatim>\<open>try\<close> block raises \<open>e\<close>, the handler writes the
  error line with \<open>e\<close> to the log and the method returns; otherwise the success line is
  written. Nothing propagates to the caller, and the table is not touched.
\<close>

theorem index_failures_are_caught:
  "fst (create_indexes E s) = Inr ()
   \<and> log_file (snd (create_indexes E s)) =
       log_file s @ [case fst (create_indexes_try E s) of
                       Inl e \<Rightarrow> MsgCreateError e | Inr u \<Rightarrow> MsgIndexesCreated]
   \<and> table (snd (create_indexes E s)) = table s
   \<and> fst (drop_indexes E s) = Inr ()
   \<and> log_file (snd (drop_indexes E s)) =
       log_file s @ [case fst (drop_indexes_try E s) of
                       Inl e \<Rightarrow> MsgDropError e | Inr u \<Rightarrow> MsgIndexesDropped]
   \<and> table (snd (drop_indexes E s)) = table s"
  using create_indexes_try_table [of E s] drop_indexes_try_table [of E s]
    create_indexes_try_log [of E s] drop_indexes_try_log [of E s]
  by (auto simp: create_indexes_def drop_indexes_def log_result_def split: prod.splits sum.splits)


theorem index_failures_are_caught_witness:
  "fst (create_indexes_try env_denied state_empty) = Inl (DbError ''permission denied'')
   \<and> fst (create_indexes env_denied state_empty) = Inr ()
   \<and> log_file (snd (create_indexes env_denied state_empty)) =
       [MsgCreateError (DbError ''permission denied'')]
   \<and> fst (drop_indexes_try env_denied state_empty) = Inl (DbError ''permission denied'')
   \<and> fst (drop_indexes env_denied state_empty) = Inr ()
   \<and> log_file (snd (drop_indexes env_denied state_empty)) =
       [MsgDropError (DbError ''permission denied'')]"
  using index_failures_are_caught [of env_denied state_empty]
  by (simp add: create_indexes_try_def drop_indexes_try_def execute_def env_denied_def
      state_empty_def)

subsection \<open>Reading rows\<close>

lemma select_fetch_Inr_ex:
  "fault E (Suc (step s)) = None \<Longrightarrow> \<exists>st rs s2. select_fetch v E n s = (Inr (st, rs), s2)"
  by (simp add: select_fetch_def time_time_def execute_def)

lemma select_data_frame:
  "next_id (snd (select_data v E n s)) = next_id s \<and> indexes (snd (select_data v E n s)) = indexes s
   \<and> log_file (snd (select_data v E n s)) = log_file s"
  by (auto simp: select_data_def select_fetch_def time_time_def execute_def
      split: option.splits prod.splits sum.splits)

text \<open>
  C8: \<^verbatim>\<open>select_data(count)\<close> leaves the table as it was, whether the statement succeeds or
  raises. The rows it fetches are at most \<open>count\<close> and at most as many as the table holds
  (exactly the smaller of the two numbers), and all of them are rows of the table. When
  the database accepts the statement, rows are fetched.
\<close>

theorem select_data_bounded:
  "table (snd (select_data v E n s)) = table s
   \<and> (\<forall>st rs s2. select_fetch v E n s = (Inr (st, rs), s2) \<longrightarrow>
        length rs \<le> n \<and> length rs \<le> length (table s) \<and> set rs \<subseteq> set (table s)
        \<and> length rs = min n (length (table s)))
   \<and> (fault E (Suc (step s)) = None \<longrightarrow> (\<exists>st rs s2. select_fetch v E n s = (Inr (st, rs), s2)))"
  using select_fetch_rows [of v E n s] select_fetch_Inr_ex [of E s v n]
  by (auto simp: select_data_table length_selected dest: set_selected_subset [THEN subsetD])

theorem select_data_bounded_witness:
  "fault env_steady (Suc (step state_three)) = None
   \<and> select_fetch Indexed env_steady 2 state_three =
       (Inr (0, [row_b, row_c]), state_three\<lparr>step := 2\<rparr>)
   \<and> length [row_b, row_c] \<le> 2 \<and> length [row_b, row_c] \<le> length (table state_three)
   \<and> set [row_b, row_c] \<subseteq> set (table state_three)
   \<and> table (snd (select_data Indexed env_steady 2 state_three)) = table state_three"
proof -
  have e: "select_fetch Indexed env_steady 2 state_three =
       (Inr (0, [row_b, row_c]), state_three\<lparr>step := 2\<rparr>)"
    by code_simp
  show ?thesis
    using select_data_bounded [of Indexed env_steady 2 state_three] e
    by (simp add: env_steady_def state_three_def)
qed


subsection \<open>A without-index time of zero\<close>

text \<open>
  C1: the percent difference is computed by an unguarded division. With a without-index
  time of \<open>0.0\<close> the division raises \<^verbatim>\<open>ZeroDivisionError\<close>, for every with-index time, and
  \<^verbatim>\<open>_print_comparison_table\<close> ends with that exception after the three heading lines,
  before any row of the report is written.
\<close>

theorem zero_baseline_raises:
  "diff_percent 0 i = Inl ZeroDivisionError
   \<and> print_comparison_table [(1000, times_0)] [(1000, times_1)] state_empty =
       (Inl ZeroDivisionError,
        state_empty\<lparr>log_file := [MsgComparisonTitle, MsgComparisonHeader, MsgRule]\<rparr>)"
  by (simp add: diff_percent_def print_comparison_table_def times_0_def times_1_def
      log_result_def state_empty_def)


subsection \<open>Updating rows\<close>

text \<open>The ids stay distinct under every statement: \<^verbatim>\<open>id\<close> is the primary key.\<close>

lemma row_id_after_update:
  "row_id \<circ> (\<lambda>r. if P r then r\<lparr>description := f r\<rparr> else r) = row_id"
  by (auto simp: fun_eq_iff)

lemma execute_keeps_ids_distinct:
  assumes "distinct (map row_id (table s))"
  shows "distinct (map row_id (table (snd (execute E q s))))"
proof (cases "fault E (step s)")
  case (Some msg)
  then show ?thesis using assms by (simp add: execute_def)
next
  case None
  show ?thesis
    using assms None
    by (cases q) (simp_all add: execute_def row_id_after_update distinct_map_filter)
qed

lemma distinct_ids_member:
  assumes "distinct (map row_id t)" "r \<in> set t" "set sel \<subseteq> set t"
  shows "row_id r \<in> row_id ` set sel \<longleftrightarrow> r \<in> set sel"
proof
  assume "row_id r \<in> row_id ` set sel"
  then obtain r' where r': "r' \<in> set sel" "row_id r' = row_id r" by auto
  with assms have "r' = r"
    by (meson distinct_map inj_on_def subsetD)
  with r' show "r \<in> set sel" by simp
qed auto

lemma selected_by_id_smallest:
  assumes d: "distinct (map row_id t)"
    and r: "r \<in> set (selected OrderById rk n t)"
    and r': "r' \<in> set t" "r' \<notin> set (selected OrderById rk n t)"
  shows "row_id r < row_id r'"
proof -
  let ?xs = "sort_key row_id t"
  have s: "sorted (map row_id (take n ?xs) @ map row_id (drop n ?xs))"
    using sorted_sort_key [of row_id t] by (simp flip: map_append)
  have "r' \<in> set (take n ?xs) \<union> set (drop n ?xs)"
    using r' by (simp flip: set_append)
  with r' have "r' \<in> set (drop n ?xs)" by (simp add: selected_def)
  with s r have le: "row_id r \<le> row_id r'"
    by (auto simp: sorted_append selected_def)
  have "r \<in> set t" using r set_selected_subset by blast
  moreover have "r \<noteq> r'" using r r' by auto
  ultimately have "row_id r \<noteq> row_id r'"
    using d r'(1) by (meson distinct_map inj_on_def)
  with le show ?thesis by simp
qed

text \<open>
  C5: in a table whose ids are distinct (\<^verbatim>\<open>id\<close> is the primary key), an \<^verbatim>\<open>update_data(count)\<close>
  that returns keeps the number and the positions of the rows; it selects
  \<open>min count (length table)\<close> rows of the table, the first \<open>count\<close> of the sub-select of the
  variant. A selected row differs from the row before only in its description, which is
  the old description followed by one \<^verbatim>\<open>_updated\<close>; every other row is the row it was. In
  \<^verbatim>\<open>task-6.py\<close> the selected rows are the rows of smallest id.
\<close>

theorem update_data_effect:
  assumes "distinct (map row_id (table s))" and "update_data v E n s = (Inr t, s')"
  shows "length (table s') = length (table s)
    \<and> length (selected (order_of v) (heap_rank E (Suc (step s))) n (table s)) = min n (length (table s))
    \<and> set (selected (order_of v) (heap_rank E (Suc (step s))) n (table s)) \<subseteq> set (table s)
    \<and> (\<forall>k < length (table s).
          (table s ! k \<in> set (selected (order_of v) (heap_rank E (Suc (step s))) n (table s)) \<longrightarrow>
             table s' ! k = (table s ! k)\<lparr>description := description (table s ! k) @ ''_updated''\<rparr>)
        \<and> (table s ! k \<notin> set (selected (order_of v) (heap_rank E (Suc (step s))) n (table s)) \<longrightarrow>
             table s' ! k = table s ! k))
    \<and> (v = Indexed \<longrightarrow>
         (\<forall>r \<in> set (selected (order_of v) (heap_rank E (Suc (step s))) n (table s)).
          \<forall>r' \<in> set (table s) - set (selected (order_of v) (heap_rank E (Suc (step s))) n (table s)).
            row_id r < row_id r'))"
proof -
  let ?sel = "selected (order_of v) (heap_rank E (Suc (step s))) n (table s)"
  have sub: "set ?sel \<subseteq> set (table s)" by (rule set_selected_subset)
  have tab: "table s' = map (\<lambda>r. if row_id r \<in> set (map row_id ?sel)
                           then r\<lparr>description := description r @ ''_updated''\<rparr> else r) (table s)"
    using update_data_Inr [OF assms(2)] by simp
  have rows: "table s' ! k = (if table s ! k \<in> set ?sel
      then (table s ! k)\<lparr>description := description (table s ! k) @ ''_updated''\<rparr>
      else table s ! k)" if "k < length (table s)" for k
    using that distinct_ids_member [OF assms(1) nth_mem [OF that] sub] by (simp add: tab)
  have small: "row_id r < row_id r'"
    if "v = Indexed" "r \<in> set ?sel" "r' \<in> set (table s) - set ?sel" for r r'
    using that selected_by_id_smallest [OF assms(1), of r "heap_rank E (Suc (step s))" n r']
    by (simp add: order_of_def)
  show ?thesis
    using sub rows small by (simp add: tab length_selected)
qed

theorem update_data_effect_witness:
  "distinct (map row_id (table state_three))
   \<and> update_data Indexed env_steady 2 state_three =
       (Inr 3, state_three\<lparr>table := [row_a, row_b\<lparr>description := ''second_updated''\<rparr>,
                                      row_c\<lparr>description := ''third_updated''\<rparr>], step := 4\<rparr>)
   \<and> selected (order_of Indexed) (heap_rank env_steady (Suc (step state_three))) 2
        (table state_three) = [row_b, row_c]
   \<and> update_data Baseline env_reversed 2 state_three =
       (Inr 3, state_three\<lparr>table := [row_a\<lparr>description := ''first_updated''\<rparr>, row_b,
                                      row_c\<lparr>description := ''third_updated''\<rparr>], step := 4\<rparr>)
   \<and> selected (order_of Baseline) (heap_rank env_reversed (Suc (step state_three))) 2
        (table state_three) = [row_a, row_c]"
proof -
  have d: "distinct (map row_id (table state_three))"
    by (simp add: state_three_def row_a_def row_b_def row_c_def)
  have u: "update_data Indexed env_steady 2 state_three =
       (Inr 3, state_three\<lparr>table := [row_a, row_b\<lparr>description := ''second_updated''\<rparr>,
                                      row_c\<lparr>description := ''third_updated''\<rparr>], step := 4\<rparr>)"
    by code_simp
  have u': "update_data Baseline env_reversed 2 state_three =
       (Inr 3, state_three\<lparr>table := [row_a\<lparr>description := ''first_updated''\<rparr>, row_b,
                                      row_c\<lparr>description := ''third_updated''\<rparr>], step := 4\<rparr>)"
    by code_simp
  have sel: "selected (order_of Indexed) (heap_rank env_steady (Suc (step state_three))) 2
        (table state_three) = [row_b, row_c]"
    by code_simp
  have sel': "selected (order_of Baseline) (heap_rank env_reversed (Suc (step state_three))) 2
        (table state_three) = [row_a, row_c]"
    by code_simp
  show ?thesis
    using update_data_effect [OF d u] update_data_effect [OF d u'] d u u' sel sel' by simp
qed


subsection \<open>One tier\<close>

lemma insert_data_Inr:
  "insert_data E n s = (Inr t, s') \<Longrightarrow>
     map row_id (table s') = map row_id (table s) @ [next_id s ..< next_id s + n]
     \<and> next_id s' = next_id s + n \<and> indexes s' = indexes s \<and> log_file s' = log_file s"
proof -
  assume a: "insert_data E n s = (Inr t, s')"
  then obtain st s1 u s2 c s3 where
    t1: "time_time E s = (st, s1)" and lp: "insert_loop E n s1 = (Inr u, s2)" and
    cm: "commit E s2 = (Inr c, s3)" and t2: "time_time E s3 = (t + st, s')"
    by (auto simp: insert_data_def split: prod.splits sum.splits)
  show ?thesis
    using time_time_table [OF t1] insert_loop_Inr [OF lp] commit_frame [OF cm]
      time_time_table [OF t2] by simp
qed

lemma execute_truncate_Inr:
  "execute E TruncateRestart s = (Inr rs, s1) \<Longrightarrow>
     table s1 = [] \<and> next_id s1 = 1 \<and> indexes s1 = indexes s \<and> log_file s1 = log_file s"
  by (auto simp: execute_def split: option.splits)

lemma select_data_Inr:
  "select_data v E n s = (Inr t, s') \<Longrightarrow>
     table s' = table s \<and> next_id s' = next_id s \<and> indexes s' = indexes s \<and> log_file s' = log_file s"
  using select_data_table [of v E n s] select_data_frame [of v E n s] by simp

lemma log_result_frame [simp]:
  "table (log_result m s) = table s" "next_id (log_result m s) = next_id s"
  "indexes (log_result m s) = indexes s" "step (log_result m s) = step s"
  by (simp_all add: log_result_def)

lemma run_tier_Inr_empty:
  assumes "run_tier v E n s = (Inr r, s')"
  shows "table s' = []"
proof -
  from assms obtain rs s1 ti s2 ts s3 tu s4 td s5 where
    tr: "execute E TruncateRestart (log_result (MsgTesting n) s) = (Inr rs, s1)" and
    ins: "insert_data E n s1 = (Inr ti, s2)" and
    sel: "select_data v E n (log_result (MsgOpTime Insert n ti) s2) = (Inr ts, s3)" and
    upd: "update_data v E n (log_result (MsgOpTime Select n ts) s3) = (Inr tu, s4)" and
    del: "delete_data v E n (log_result (MsgOpTime Update n tu) s4) = (Inr td, s5)" and
    fin: "s' = log_result (MsgOpTime Delete n td) s5"
    by (auto simp: run_tier_def split: prod.splits sum.splits)
  have "map row_id (table s2) = [] @ [1..<1 + n]"
    using execute_truncate_Inr [OF tr] insert_data_Inr [OF ins] by simp
  then have "length (map row_id (table s2)) = length [1..<1 + n]"
    by simp
  then have "length (table s2) = n"
    by (simp del: upt_Suc)
  then have "length (table s3) = n"
    using select_data_Inr [OF sel] by simp
  then have l4: "length (table s4) = n"
    using update_data_Inr [OF upd] by simp
  have "table s5 = []"
    using delete_data_Inr [OF del] l4 by (simp add: selected_all)
  then show ?thesis by (simp add: fin)
qed

lemma execute_no_fault:
  "no_faults E \<Longrightarrow> execute E q s = run_stmt (heap_rank E (step s)) q (s\<lparr>step := Suc (step s)\<rparr>)"
  by (simp add: execute_def no_faults_def)

lemma commit_no_fault: "no_faults E \<Longrightarrow> commit E s = (Inr (), s\<lparr>step := Suc (step s)\<rparr>)"
  by (simp add: commit_def no_faults_def)

lemma insert_loop_ok:
  "no_faults E \<Longrightarrow> \<forall>r \<in> set (table s). row_id r < next_id s \<Longrightarrow>
     \<exists>s'. insert_loop E n s = (Inr (), s')"
proof (induction n arbitrary: s)
  case 0
  then show ?case by simp
next
  case (Suc n)
  obtain nm s1 where g1: "generate_random_string E None s = (nm, s1)" by force
  obtain ds s2 where g2: "generate_random_string E (Some 50) s1 = (ds, s2)" by force
  obtain ca s3 where g3: "datetime_now E s2 = (ca, s3)" by force
  have fr: "table s3 = table s" "next_id s3 = next_id s"
    using generate_random_string_frame [OF g1] generate_random_string_frame [OF g2]
      datetime_now_frame [OF g3] by simp_all
  have fresh: "next_id s3 \<notin> set (map row_id (table s3))"
    using Suc.prems(2) fr by auto
  define s4 where "s4 = s3\<lparr>step := Suc (step s3),
      table := table s3 @ [\<lparr>row_id = next_id s3, name = nm, description = ds, created_at = ca\<rparr>],
      next_id := Suc (next_id s3)\<rparr>"
  have ex: "execute E (InsertRow nm ds ca) s3 = (Inr [], s4)"
    using fresh by (simp add: execute_no_fault [OF Suc.prems(1)] s4_def)
  have "\<forall>r \<in> set (table s4). row_id r < next_id s4"
    using Suc.prems(2) fr by (auto simp: s4_def less_Suc_eq)
  from Suc.IH [OF Suc.prems(1) this] obtain s' where "insert_loop E n s4 = (Inr (), s')" ..
  then show ?case by (simp add: g1 g2 g3 ex)
qed

lemma insert_data_ok:
  assumes "no_faults E" "\<forall>r \<in> set (table s). row_id r < next_id s"
  shows "\<exists>t s'. insert_data E n s = (Inr t, s')"
proof -
  obtain s2 where "insert_loop E n (s\<lparr>step := Suc (step s)\<rparr>) = (Inr (), s2)"
    using insert_loop_ok [OF assms(1), of "s\<lparr>step := Suc (step s)\<rparr>" n] assms(2) by auto
  then show ?thesis
    by (simp add: insert_data_def time_time_def commit_no_fault [OF assms(1)])
qed

lemma select_data_ok: "no_faults E \<Longrightarrow> \<exists>t s'. select_data v E n s = (Inr t, s')"
  by (simp add: select_data_def select_fetch_def time_time_def execute_no_fault)

lemma update_data_ok: "no_faults E \<Longrightarrow> \<exists>t s'. update_data v E n s = (Inr t, s')"
  by (simp add: update_data_def time_time_def execute_no_fault commit_no_fault)

lemma delete_data_ok: "no_faults E \<Longrightarrow> \<exists>t s'. delete_data v E n s = (Inr t, s')"
  by (simp add: delete_data_def time_time_def execute_no_fault commit_no_fault)

lemma run_tier_ok:
  assumes nf: "no_faults E"
  shows "\<exists>r s'. run_tier v E n s = (Inr r, s')"
proof -
  define s1 where "s1 = snd (execute E TruncateRestart (log_result (MsgTesting n) s))"
  have tr: "execute E TruncateRestart (log_result (MsgTesting n) s) = (Inr [], s1)"
    by (simp add: s1_def execute_no_fault [OF nf])
  have "table s1 = []" using execute_truncate_Inr [OF tr] by simp
  then obtain ti s2 where ins: "insert_data E n s1 = (Inr ti, s2)"
    using insert_data_ok [OF nf, of s1 n] by auto
  obtain ts s3 where sel: "select_data v E n (log_result (MsgOpTime Insert n ti) s2) = (Inr ts, s3)"
    using select_data_ok [OF nf] by blast
  obtain tu s4 where upd: "update_data v E n (log_result (MsgOpTime Select n ts) s3) = (Inr tu, s4)"
    using update_data_ok [OF nf] by blast
  obtain td s5 where del: "delete_data v E n (log_result (MsgOpTime Update n tu) s4) = (Inr td, s5)"
    using delete_data_ok [OF nf] by blast
  show ?thesis
    by (simp add: run_tier_def tr ins sel upd del)
qed

text \<open>
  C2: whenever the test cycle of one size (truncate, insert \<open>n\<close>, select, update and delete
  with limit \<open>n\<close>) completes, the table holds no row, in both variants and from every
  state; and in an environment in which the database client never raises the cycle does
  complete. This holds for every \<open>n\<close>, in particular for \<open>n > 0\<close>.
\<close>

theorem run_tier_leaves_table_empty:
  "(\<forall>r s'. run_tier v E n s = (Inr r, s') \<longrightarrow> table s' = [])
   \<and> (no_faults E \<longrightarrow> (\<exists>r s'. run_tier v E n s = (Inr r, s') \<and> table s' = []))"
  using run_tier_Inr_empty [of v E n s] run_tier_ok [of E v n s] by blast


theorem run_tier_leaves_table_empty_witness:
  "no_faults env_steady
   \<and> (\<exists>r s'. run_tier Indexed env_steady 2 state_three = (Inr r, s') \<and> table s' = [])
   \<and> (\<exists>r s'. run_tier Baseline env_reversed 2 state_three = (Inr r, s') \<and> table s' = [])"
proof -
  have nf: "no_faults env_steady" "no_faults env_reversed"
    by (simp_all add: no_faults_def env_steady_def env_reversed_def)
  show ?thesis
    using run_tier_leaves_table_empty [of Indexed env_steady 2 state_three]
      run_tier_leaves_table_empty [of Baseline env_reversed 2 state_three] nf
    by simp
qed

lemma truncate_insert_ids:
  assumes "execute E TruncateRestart (log_result (MsgTesting n) s) = (Inr rs, s1)"
    and "insert_data E n s1 = (Inr t, s2)"
  shows "map row_id (table s2) = [1..<Suc n] \<and> length (table s2) = n
    \<and> (0 < n \<longrightarrow> row_id (hd (table s2)) = 1)"
proof -
  have ids: "map row_id (table s2) = [] @ [1..<1 + n]"
    using execute_truncate_Inr [OF assms(1)] insert_data_Inr [OF assms(2)] by simp
  then have "length (map row_id (table s2)) = length [1..<1 + n]" by simp
  then have len: "length (table s2) = n" by (simp del: upt_Suc)
  have "row_id (hd (table s2)) = 1" if "0 < n"
  proof -
    from that len have ne: "table s2 \<noteq> []" by auto
    then have "row_id (hd (table s2)) = hd (map row_id (table s2))" by (simp add: hd_map)
    also have "\<dots> = hd [1..<1 + n]" using ids by simp
    also have "\<dots> = 1" using that by (simp add: upt_rec [of 1] del: upt_Suc)
    finally show ?thesis .
  qed
  with ids len show ?thesis by (simp del: upt_Suc)
qed

lemma run_test_cycle_from_append:
  "run_test_cycle_from v E (pre @ sz # post) acc s =
     (case run_test_cycle_from v E pre acc s of
        (Inl e, s1) \<Rightarrow> (Inl e, s1)
      | (Inr res, s1) \<Rightarrow>
          (case run_tier v E sz s1 of
             (Inl e, s2) \<Rightarrow> (Inl e, s2)
           | (Inr r, s2) \<Rightarrow> run_test_cycle_from v E post (AList.update sz r res) s2))"
  by (induction pre arbitrary: acc s) (auto split: prod.splits sum.splits)

lemma run_tier_Inr_phases:
  assumes "run_tier v E n s = (Inr r, s')"
  shows "\<exists>rs s1 t s2. execute E TruncateRestart (log_result (MsgTesting n) s) = (Inr rs, s1)
           \<and> insert_data E n s1 = (Inr t, s2)"
  using assms by (auto simp: run_tier_def split: prod.splits sum.splits)

text \<open>
  C3: every tier starts with \<^verbatim>\<open>TRUNCATE TABLE performance_test RESTART IDENTITY\<close>. From
  every state \<open>s\<close>, whatever earlier tiers left in the table and in the sequence, once that
  statement and the insertion of the tier have succeeded the table holds exactly \<open>n\<close> rows
  and their ids are \<open>1, \<dots>, n\<close> in this order; for \<open>n > 0\<close> the first row has id 1. Every
  tier that completes has passed through such a state. (By \<open>run_test_cycle_from_append\<close>
  every tier of the loop is the loop body started in the state the earlier tiers left.)
\<close>

theorem truncate_restarts_ids:
  "(\<forall>rs s1 t s2.
      execute E TruncateRestart (log_result (MsgTesting n) s) = (Inr rs, s1)
      \<and> insert_data E n s1 = (Inr t, s2) \<longrightarrow>
      map row_id (table s2) = [1..<Suc n] \<and> length (table s2) = n
      \<and> (0 < n \<longrightarrow> row_id (hd (table s2)) = 1))
   \<and> (\<forall>r s'. run_tier v E n s = (Inr r, s') \<longrightarrow>
        (\<exists>rs s1 t s2.
           execute E TruncateRestart (log_result (MsgTesting n) s) = (Inr rs, s1)
           \<and> insert_data E n s1 = (Inr t, s2)
           \<and> map row_id (table s2) = [1..<Suc n]))"
proof -
  have a: "map row_id (table s2) = [1..<Suc n] \<and> length (table s2) = n
      \<and> (0 < n \<longrightarrow> row_id (hd (table s2)) = 1)"
    if "execute E TruncateRestart (log_result (MsgTesting n) s) = (Inr rs, s1)
      \<and> insert_data E n s1 = (Inr t, s2)" for rs s1 t s2
    using truncate_insert_ids [of E n s rs s1 t s2] that by simp
  have b: "\<exists>rs s1 t s2.
           execute E TruncateRestart (log_result (MsgTesting n) s) = (Inr rs, s1)
           \<and> insert_data E n s1 = (Inr t, s2)
           \<and> map row_id (table s2) = [1..<Suc n]"
    if "run_tier v E n s = (Inr r, s')" for r s'
  proof -
    from run_tier_Inr_phases [OF that] obtain rs s1 t s2 where
      p: "execute E TruncateRestart (log_result (MsgTesting n) s) = (Inr rs, s1)"
        "insert_data E n s1 = (Inr t, s2)" by blast
    with truncate_insert_ids [OF p] show ?thesis by blast
  qed
  show ?thesis using a b by blast
qed

theorem truncate_restarts_ids_witness:
  "execute env_steady TruncateRestart (log_result (MsgTesting 2) state_three) =
     (Inr [], state_truncated)
   \<and> fst (insert_data env_steady 2 state_truncated) = Inr 126
   \<and> map row_id (table (snd (insert_data env_steady 2 state_truncated))) = [1, 2]
   \<and> (0::nat) < 2
   \<and> row_id (hd (table (snd (insert_data env_steady 2 state_truncated)))) = 1
   \<and> map row_id (table state_three) = [7, 3, 5] \<and> next_id state_three = 8"
proof -
  have tr: "execute env_steady TruncateRestart (log_result (MsgTesting 2) state_three) =
     (Inr [], state_truncated)"
    by code_simp
  have i: "fst (insert_data env_steady 2 state_truncated) = Inr 126"
    by code_simp
  then have ins: "insert_data env_steady 2 state_truncated =
      (Inr 126, snd (insert_data env_steady 2 state_truncated))"
    by (simp add: prod_eq_iff)
  have u: "[1..<Suc 2] = [1, 2::nat]" by code_simp
  have pos: "(0::nat) < 2" by simp
  have old: "map row_id (table state_three) = [7, 3, 5] \<and> next_id state_three = 8"
    by (simp add: state_three_def row_a_def row_b_def row_c_def)
  have "map row_id (table (snd (insert_data env_steady 2 state_truncated))) = [1..<Suc 2]
      \<and> row_id (hd (table (snd (insert_data env_steady 2 state_truncated)))) = 1"
    using truncate_restarts_ids [of env_steady 2 state_three Indexed] tr ins pos by blast
  then show ?thesis
    using tr i old by (simp only: u) simp
qed

subsection \<open>A count of zero\<close>

lemma insert_data_0_table: "table (snd (insert_data E 0 s)) = table s"
  by (auto simp: insert_data_def time_time_def commit_def split: option.splits)

lemma update_data_0_table: "table (snd (update_data v E 0 s)) = table s"
  by (auto simp: update_data_def time_time_def commit_def execute_def selected_0
      split: option.splits)

lemma delete_data_0_table: "table (snd (delete_data v E 0 s)) = table s"
  by (auto simp: delete_data_def time_time_def commit_def execute_def selected_0
      split: option.splits)

lemma insert_data_0_value:
  "fst (insert_data E 0 s) = Inr t \<Longrightarrow> t = clock E (Suc (Suc (step s))) - clock E (step s)"
  by (auto simp: insert_data_def time_time_def commit_def split: option.splits)

lemma update_data_value:
  "fst (update_data v E n s) = Inr t \<Longrightarrow>
     t = clock E (Suc (Suc (Suc (step s)))) - clock E (step s)"
  by (auto simp: update_data_def time_time_def commit_def execute_def split: option.splits)

lemma delete_data_value:
  "fst (delete_data v E n s) = Inr t \<Longrightarrow>
     t = clock E (Suc (Suc (Suc (step s)))) - clock E (step s)"
  by (auto simp: delete_data_def time_time_def commit_def execute_def split: option.splits)

lemma insert_data_0_returns:
  "fault E (Suc (step s)) = None \<Longrightarrow> \<exists>t. fst (insert_data E 0 s) = Inr t"
  by (simp add: insert_data_def time_time_def commit_def)

lemma update_data_returns:
  "fault E (Suc (step s)) = None \<Longrightarrow> fault E (Suc (Suc (step s))) = None \<Longrightarrow>
     \<exists>t. fst (update_data v E n s) = Inr t"
  by (simp add: update_data_def time_time_def commit_def execute_def)

lemma delete_data_returns:
  "fault E (Suc (step s)) = None \<Longrightarrow> fault E (Suc (Suc (step s))) = None \<Longrightarrow>
     \<exists>t. fst (delete_data v E n s) = Inr t"
  by (simp add: delete_data_def time_time_def commit_def execute_def)

text \<open>
  C10, as amended: called with a count of 0, \<^verbatim>\<open>insert_data\<close>, \<^verbatim>\<open>update_data\<close> and
  \<^verbatim>\<open>delete_data\<close> leave the rows of the table as they were, whether they return or raise.
  Each returns when the database accepts its statement and its commit, and the value it
  returns is the reading of the wall clock at its end minus the reading at its start;
  this value is not negative when the clock is never set back.
\<close>

theorem zero_count_changes_nothing:
  "table (snd (insert_data E 0 s)) = table s
   \<and> table (snd (update_data v E 0 s)) = table s
   \<and> table (snd (delete_data v E 0 s)) = table s
   \<and> (fault E (Suc (step s)) = None \<longrightarrow> (\<exists>t. fst (insert_data E 0 s) = Inr t))
   \<and> (fault E (Suc (step s)) = None \<and> fault E (Suc (Suc (step s))) = None \<longrightarrow>
        (\<exists>t. fst (update_data v E 0 s) = Inr t) \<and> (\<exists>t. fst (delete_data v E 0 s) = Inr t))
   \<and> (\<forall>t. fst (insert_data E 0 s) = Inr t \<longrightarrow>
        t = clock E (Suc (Suc (step s))) - clock E (step s))
   \<and> (\<forall>t. fst (update_data v E 0 s) = Inr t \<or> fst (delete_data v E 0 s) = Inr t \<longrightarrow>
        t = clock E (Suc (Suc (Suc (step s)))) - clock E (step s))
   \<and> ((\<forall>j k. j \<le> k \<longrightarrow> clock E j \<le> clock E k) \<longrightarrow>
        (\<forall>t. fst (insert_data E 0 s) = Inr t \<or> fst (update_data v E 0 s) = Inr t
              \<or> fst (delete_data v E 0 s) = Inr t \<longrightarrow> 0 \<le> t))"
proof -
  have "0 \<le> t" if m: "\<forall>j k. j \<le> k \<longrightarrow> clock E j \<le> clock E k"
    and t: "fst (insert_data E 0 s) = Inr t \<or> fst (update_data v E 0 s) = Inr t
              \<or> fst (delete_data v E 0 s) = Inr t" for t
  proof -
    have "clock E (step s) \<le> clock E (Suc (Suc (step s)))"
      "clock E (step s) \<le> clock E (Suc (Suc (Suc (step s))))"
      using m by simp_all
    with t show ?thesis
      using insert_data_0_value [of E s t] update_data_value [of v E 0 s t]
        delete_data_value [of v E 0 s t] by auto
  qed
  then show ?thesis
    using insert_data_0_value [of E s] update_data_value [of v E 0 s]
      delete_data_value [of v E 0 s] insert_data_0_returns [of E s]
      update_data_returns [of E s v 0] delete_data_returns [of E s v 0]
    by (simp add: insert_data_0_table update_data_0_table delete_data_0_table)
qed

theorem zero_count_changes_nothing_witness:
  "fault env_steady (Suc (step state_three)) = None
   \<and> fault env_steady (Suc (Suc (step state_three))) = None
   \<and> mono (clock env_steady)
   \<and> fst (insert_data env_steady 0 state_three) = Inr 2
   \<and> fst (update_data Indexed env_steady 0 state_three) = Inr 3
   \<and> fst (delete_data Indexed env_steady 0 state_three) = Inr 3
   \<and> (0::real) \<le> 2 \<and> (0::real) \<le> 3
   \<and> table (snd (insert_data env_steady 0 state_three)) = table state_three
   \<and> table (snd (update_data Indexed env_steady 0 state_three)) = table state_three
   \<and> table (snd (delete_data Indexed env_steady 0 state_three)) = table state_three"
proof -
  have m: "\<forall>j k. j \<le> k \<longrightarrow> clock env_steady j \<le> clock env_steady k"
    by (simp add: env_steady_def)
  have m': "mono (clock env_steady)"
    by (simp add: env_steady_def mono_def)
  have f: "fault env_steady (Suc (step state_three)) = None"
    "fault env_steady (Suc (Suc (step state_three))) = None"
    by (simp_all add: env_steady_def)
  have v: "fst (insert_data env_steady 0 state_three) = Inr 2"
    "fst (update_data Indexed env_steady 0 state_three) = Inr 3"
    "fst (delete_data Indexed env_steady 0 state_three) = Inr 3"
    by (simp_all add: insert_data_def update_data_def delete_data_def time_time_def commit_def
        execute_def env_steady_def state_three_def)
  show ?thesis
    using zero_count_changes_nothing [of env_steady state_three Indexed] m m' f v by simp
qed

text \<open>
  The claim as stated (the value returned is never negative) fails when the wall clock is
  set back between the two readings, which \<^verbatim>\<open>time.time()\<close> permits.
\<close>

theorem zero_count_negative_time:
  "fst (insert_data env_set_back 0 state_three) = Inr (- 2)
   \<and> fst (update_data Indexed env_set_back 0 state_three) = Inr (- 2)
   \<and> fst (delete_data Indexed env_set_back 0 state_three) = Inr (- 2)
   \<and> \<not> (0::real) \<le> - 2"
  by (simp add: insert_data_def update_data_def delete_data_def time_time_def commit_def
      execute_def env_set_back_def state_three_def)

subsection \<open>The whole run of \<^verbatim>\<open>task-6.py\<close>\<close>

lemma insert_data_value:
  "insert_data E n s = (Inr t, s') \<Longrightarrow> \<exists>j. t = clock E j - clock E (step s)"
  by (auto simp: insert_data_def time_time_def split: prod.splits sum.splits)

lemma select_data_value:
  "select_data v E n s = (Inr t, s') \<Longrightarrow> \<exists>j. t = clock E j - clock E (step s)"
  by (auto simp: select_data_def select_fetch_def time_time_def split: prod.splits sum.splits)

lemma run_tier_frozen:
  assumes fr: "frozen_clock E" and rt: "run_tier v E n s = (Inr r, s')"
  shows "r = times_0"
proof -
  from rt obtain rs s1 ti s2 ts s3 tu s4 td s5 where
    ins: "insert_data E n s1 = (Inr ti, s2)" and
    sel: "select_data v E n (log_result (MsgOpTime Insert n ti) s2) = (Inr ts, s3)" and
    upd: "update_data v E n (log_result (MsgOpTime Select n ts) s3) = (Inr tu, s4)" and
    del: "delete_data v E n (log_result (MsgOpTime Update n tu) s4) = (Inr td, s5)" and
    r: "r = \<lparr>res_Insert = ti, res_Select = ts, res_Update = tu, res_Delete = td\<rparr>"
    by (auto simp: run_tier_def split: prod.splits sum.splits)
  have z: "clock E j - clock E k = 0" for j k
    using fr by (simp add: frozen_clock_def)
  have "ti = 0" using insert_data_value [OF ins] z by auto
  moreover have "ts = 0" using select_data_value [OF sel] z by auto
  moreover have "tu = 0" using update_data_Inr [OF upd] z by auto
  moreover have "td = 0" using delete_data_Inr [OF del] z by auto
  ultimately show ?thesis by (simp add: r times_0_def)
qed

lemma run_test_cycle_from_ok:
  "no_faults E \<Longrightarrow> \<exists>res s'. run_test_cycle_from v E sizes acc s = (Inr res, s')"
proof (induction sizes arbitrary: acc s)
  case Nil
  then show ?case by simp
next
  case (Cons sz sizes)
  obtain r s1 where "run_tier v E sz s = (Inr r, s1)"
    using run_tier_ok [OF Cons.prems] by blast
  then show ?case using Cons.IH [OF Cons.prems] by simp
qed

lemma run_test_cycle_from_keys:
  "run_test_cycle_from v E sizes acc s = (Inr res, s') \<Longrightarrow>
     fst ` set res = fst ` set acc \<union> set sizes"
proof (induction sizes arbitrary: acc s)
  case Nil
  then show ?case by simp
next
  case (Cons sz sizes)
  from Cons.prems obtain r s1 where
    "run_tier v E sz s = (Inr r, s1)"
    "run_test_cycle_from v E sizes (AList.update sz r acc) s1 = (Inr res, s')"
    by (auto split: prod.splits sum.splits)
  from Cons.IH [OF this(2)] show ?case
    by (simp add: dom_update)
qed

lemma set_update_values:
  "p \<in> set (AList.update k v al) \<Longrightarrow> p = (k, v) \<or> p \<in> set al"
  by (induction al) (auto split: if_splits)

lemma run_test_cycle_from_frozen:
  "frozen_clock E \<Longrightarrow> run_test_cycle_from v E sizes acc s = (Inr res, s') \<Longrightarrow>
     \<forall>p \<in> set acc. snd p = times_0 \<Longrightarrow> \<forall>p \<in> set res. snd p = times_0"
proof (induction sizes arbitrary: acc s)
  case Nil
  then show ?case by simp
next
  case (Cons sz sizes)
  from Cons.prems(2) obtain r s1 where
    rt: "run_tier v E sz s = (Inr r, s1)" and
    rest: "run_test_cycle_from v E sizes (AList.update sz r acc) s1 = (Inr res, s')"
    by (auto split: prod.splits sum.splits)
  have "r = times_0" using run_tier_frozen [OF Cons.prems(1) rt] .
  then have "\<forall>p \<in> set (AList.update sz r acc). snd p = times_0"
    using Cons.prems(3) by (fastforce dest: set_update_values)
  from Cons.IH [OF Cons.prems(1) rest this] show ?case .
qed


lemma comparison_sizes_zero:
  assumes "map_of rwo sz = Some a" "map_of rwi sz = Some b" "op_time a Insert = 0"
  shows "comparison_sizes rwo rwi (sz # rest) s = (Inl ZeroDivisionError, s)"
  using assms by (simp add: diff_percent_def)

lemma print_comparison_table_zero:
  assumes ne: "rwo \<noteq> []" and z: "\<forall>p \<in> set rwo. snd p = times_0"
    and k: "fst ` set rwo \<subseteq> fst ` set rwi"
  shows "fst (print_comparison_table rwo rwi s) = Inl ZeroDivisionError"
proof -
  from ne obtain sz a rest where rwo: "rwo = (sz, a) # rest" by (cases rwo) auto
  have a: "map_of rwo sz = Some a" by (simp add: rwo)
  have "a = times_0" using z by (simp add: rwo)
  then have za: "op_time a Insert = 0" by (simp add: times_0_def)
  have "sz \<in> fst ` set rwi" using k by (auto simp: rwo)
  then obtain b where b: "map_of rwi sz = Some b"
    by (metis weak_map_of_SomeI map_of_eq_None_iff not_Some_eq)
  have "map fst rwo = sz # map fst rest" by (simp add: rwo)
  then show ?thesis
    using comparison_sizes_zero [OF a b za] by (simp add: print_comparison_table_def)
qed

lemma create_indexes_Inr: "\<exists>s'. create_indexes E s = (Inr (), s')"
  by (auto simp: create_indexes_def split: prod.splits sum.splits)

lemma drop_indexes_Inr: "\<exists>s'. drop_indexes E s = (Inr (), s')"
  by (auto simp: drop_indexes_def split: prod.splits sum.splits)

lemma run_performance_tests_task6_frozen:
  assumes nf: "no_faults E" and fr: "frozen_clock E" and ne: "test_sizes \<noteq> []"
  shows "fst (run_performance_tests_task6 E test_sizes s) = Inl ZeroDivisionError"
proof -
  obtain rwo s1 where c1: "run_test_cycle Indexed E test_sizes
      (log_result MsgPhaseWithout (s\<lparr>log_file := []\<rparr>)) = (Inr rwo, s1)"
    using run_test_cycle_from_ok [OF nf] unfolding run_test_cycle_def by blast
  obtain s2 where ci: "create_indexes E s1 = (Inr (), s2)"
    using create_indexes_Inr by blast
  obtain rwi s3 where c2: "run_test_cycle Indexed E test_sizes (log_result MsgPhaseWith s2) =
      (Inr rwi, s3)"
    using run_test_cycle_from_ok [OF nf] unfolding run_test_cycle_def by blast
  obtain s4 where di: "drop_indexes E s3 = (Inr (), s4)"
    using drop_indexes_Inr by blast
  have k1: "fst ` set rwo = set test_sizes"
    using run_test_cycle_from_keys [OF c1 [unfolded run_test_cycle_def]] by simp
  have k2: "fst ` set rwi = set test_sizes"
    using run_test_cycle_from_keys [OF c2 [unfolded run_test_cycle_def]] by simp
  have z: "\<forall>p \<in> set rwo. snd p = times_0"
    using run_test_cycle_from_frozen [OF fr c1 [unfolded run_test_cycle_def]] by simp
  have "rwo \<noteq> []" using k1 ne by auto
  then have "fst (print_comparison_table rwo rwi s4) = Inl ZeroDivisionError"
    using print_comparison_table_zero [OF _ z] k1 k2 by simp
  then obtain s5 where "print_comparison_table rwo rwi s4 = (Inl ZeroDivisionError, s5)"
    by (metis prod.collapse)
  then show ?thesis
    by (simp add: run_performance_tests_task6_def c1 ci c2 di)
qed

lemma comparison_ops_rows:
  assumes "map_of rwo sz = Some a" "map_of rwi sz = Some b"
  shows "\<forall>opn \<in> set ops. op_time a opn \<noteq> 0 \<Longrightarrow>
     comparison_ops rwo rwi sz ops s =
       (Inr (), s\<lparr>log_file := log_file s @ map (comparison_row a b sz) ops\<rparr>)"
proof (induction ops arbitrary: s)
  case Nil
  then show ?case by simp
next
  case (Cons opn ops)
  then show ?case
    using assms by (simp add: diff_percent_def log_result_def comparison_row_def)
qed

lemma comparison_ops_raises:
  assumes "map_of rwo sz = Some a" "map_of rwi sz = Some b"
  shows "\<exists>opn \<in> set ops. op_time a opn = 0 \<Longrightarrow>
     fst (comparison_ops rwo rwi sz ops s) = Inl ZeroDivisionError"
proof (induction ops arbitrary: s)
  case Nil
  then show ?case by simp
next
  case (Cons opn ops)
  show ?case
  proof (cases "op_time a opn = 0")
    case True
    then show ?thesis using assms by (simp add: diff_percent_def)
  next
    case False
    with Cons.prems have "\<exists>opn \<in> set ops. op_time a opn = 0" by auto
    from Cons.IH [OF this] False show ?thesis
      using assms by (simp add: diff_percent_def)
  qed
qed

lemma all_operations: "set [Insert, Select, Update, Delete] = UNIV"
proof -
  have "x \<in> set [Insert, Select, Update, Delete]" for x by (cases x) simp_all
  then show ?thesis by blast
qed

lemma comparison_sizes_rows:
  assumes d: "distinct (map fst rwo)"
    and k: "fst ` set rwo \<subseteq> fst ` set rwi"
    and nz: "\<forall>p \<in> set rwo. \<forall>opn. op_time (snd p) opn \<noteq> 0"
  shows "set ps \<subseteq> set rwo \<Longrightarrow>
     comparison_sizes rwo rwi (map fst ps) s =
       (Inr (), s\<lparr>log_file := log_file s @ spec_report_rows ps rwi\<rparr>)"
proof (induction ps arbitrary: s)
  case Nil
  then show ?case by (simp add: spec_report_rows_def)
next
  case (Cons p ps)
  obtain sz a where p: "p = (sz, a)" by (cases p)
  have mem: "(sz, a) \<in> set rwo" using Cons.prems p by simp
  have a: "map_of rwo sz = Some a" using d mem by simp
  have "sz \<in> fst ` set rwi" using k mem by force
  then obtain b where b: "map_of rwi sz = Some b"
    by (metis weak_map_of_SomeI map_of_eq_None_iff not_Some_eq)
  have "\<forall>opn. op_time a opn \<noteq> 0"
    using nz mem by (metis snd_conv)
  then have "\<forall>opn \<in> set [Insert, Select, Update, Delete]. op_time a opn \<noteq> 0"
    by blast
  from comparison_ops_rows [OF a b this]
  have ops: "comparison_ops rwo rwi sz [Insert, Select, Update, Delete] s =
       (Inr (), s\<lparr>log_file := log_file s
          @ map (comparison_row a b sz) [Insert, Select, Update, Delete]\<rparr>)" .
  have rest: "set ps \<subseteq> set rwo" using Cons.prems by simp
  show ?case
    using Cons.IH [OF rest]
    by (simp add: p ops b spec_report_rows_def del: comparison_ops.simps)
qed

lemma comparison_sizes_raises:
  assumes d: "distinct (map fst rwo)"
    and k: "fst ` set rwo \<subseteq> fst ` set rwi"
  shows "set ps \<subseteq> set rwo \<Longrightarrow> \<exists>p \<in> set ps. \<exists>opn. op_time (snd p) opn = 0 \<Longrightarrow>
     fst (comparison_sizes rwo rwi (map fst ps) s) = Inl ZeroDivisionError"
proof (induction ps arbitrary: s)
  case Nil
  then show ?case by simp
next
  case (Cons p ps)
  obtain sz a where p: "p = (sz, a)" by (cases p)
  have mem: "(sz, a) \<in> set rwo" using Cons.prems p by simp
  have a: "map_of rwo sz = Some a" using d mem by simp
  have "sz \<in> fst ` set rwi" using k mem by force
  then obtain b where b: "map_of rwi sz = Some b"
    by (metis weak_map_of_SomeI map_of_eq_None_iff not_Some_eq)
  have rest: "set ps \<subseteq> set rwo" using Cons.prems by simp
  show ?case
  proof (cases "\<exists>opn. op_time a opn = 0")
    case True
    then have "\<exists>opn \<in> set [Insert, Select, Update, Delete]. op_time a opn = 0"
      unfolding all_operations by simp
    from comparison_ops_raises [OF a b this, of s]
    obtain s1 where "comparison_ops rwo rwi sz [Insert, Select, Update, Delete] s =
        (Inl ZeroDivisionError, s1)" by (metis prod.collapse)
    then show ?thesis by (simp add: p del: comparison_ops.simps)
  next
    case False
    then have "\<forall>opn \<in> set [Insert, Select, Update, Delete]. op_time a opn \<noteq> 0"
      by blast
    from comparison_ops_rows [OF a b this]
    have ops: "comparison_ops rwo rwi sz [Insert, Select, Update, Delete] s =
       (Inr (), s\<lparr>log_file := log_file s
          @ map (comparison_row a b sz) [Insert, Select, Update, Delete]\<rparr>)" .
    from False Cons.prems(2) have "\<exists>p \<in> set ps. \<exists>opn. op_time (snd p) opn = 0"
      by (auto simp: p)
    from Cons.IH [OF rest this] show ?thesis
      by (simp add: p ops del: comparison_ops.simps)
  qed
qed

lemma length_spec_report_rows:
  "fst ` set rwo \<subseteq> fst ` set rwi \<Longrightarrow> length (spec_report_rows rwo rwi) = 4 * length rwo"
proof (induction rwo)
  case Nil
  then show ?case by (simp add: spec_report_rows_def)
next
  case (Cons p rwo)
  have "fst p \<in> fst ` set rwi" using Cons.prems by simp
  then obtain b where b: "map_of rwi (fst p) = Some b"
    by (metis weak_map_of_SomeI map_of_eq_None_iff not_Some_eq)
  have "fst ` set rwo \<subseteq> fst ` set rwi" using Cons.prems by simp
  from Cons.IH [OF this] show ?case by (simp add: spec_report_rows_def b)
qed


lemma print_comparison_table_rows:
  assumes "distinct (map fst rwo)" "fst ` set rwo \<subseteq> fst ` set rwi"
    "\<forall>p \<in> set rwo. \<forall>opn. op_time (snd p) opn \<noteq> 0"
  shows "print_comparison_table rwo rwi s =
     (Inr (), s\<lparr>log_file := log_file s @ [MsgComparisonTitle, MsgComparisonHeader, MsgRule]
                                @ spec_report_rows rwo rwi\<rparr>)"
  using comparison_sizes_rows [OF assms, of rwo]
  by (simp add: print_comparison_table_def log_result_def)

lemma print_comparison_table_raises:
  assumes "distinct (map fst rwo)" "fst ` set rwo \<subseteq> fst ` set rwi"
    "\<exists>p \<in> set rwo. \<exists>opn. op_time (snd p) opn = 0"
  shows "fst (print_comparison_table rwo rwi s) = Inl ZeroDivisionError"
  using comparison_sizes_raises [OF assms(1,2), of rwo] assms(3)
  by (simp add: print_comparison_table_def)

lemma insert_loop_step: "step s \<le> step (snd (insert_loop E n s))"
proof (induction n arbitrary: s)
  case 0
  then show ?case by simp
next
  case (Suc n)
  obtain nm s1 where g1: "generate_random_string E None s = (nm, s1)" by force
  obtain ds s2 where g2: "generate_random_string E (Some 50) s1 = (ds, s2)" by force
  obtain ca s3 where g3: "datetime_now E s2 = (ca, s3)" by force
  obtain r s4 where ex: "execute E (InsertRow nm ds ca) s3 = (r, s4)" by force
  have "step s \<le> step s1" "step s1 \<le> step s2"
    using g1 g2 by (auto simp: generate_random_string_def random_choices_def)
  moreover have "step s2 \<le> step s3" using g3 by (auto simp: datetime_now_def)
  moreover have "step s3 \<le> step s4"
    using ex by (auto simp: execute_def split: option.splits if_splits)
  ultimately have le: "step s \<le> step s4" by simp
  show ?case
  proof (cases r)
    case (Inl e)
    then show ?thesis using le by (simp add: g1 g2 g3 ex)
  next
    case (Inr x)
    then show ?thesis using le Suc.IH [of s4] by (simp add: g1 g2 g3 ex)
  qed
qed

lemma insert_data_positive:
  assumes sm: "strict_mono (clock E)" and i: "insert_data E n s = (Inr t, s')"
  shows "0 < t"
proof -
  from i obtain u s2 c s3 where
    lp: "insert_loop E n (s\<lparr>step := Suc (step s)\<rparr>) = (Inr u, s2)" and
    cm: "commit E s2 = (Inr c, s3)" and t: "t = clock E (step s3) - clock E (step s)"
    by (auto simp: insert_data_def time_time_def split: prod.splits sum.splits)
  have "Suc (step s) \<le> step s2"
    using insert_loop_step [of "s\<lparr>step := Suc (step s)\<rparr>" E n] lp by simp
  then have "step s < step s3" using commit_frame [OF cm] by simp
  then show ?thesis using sm by (simp add: t strict_mono_def)
qed

lemma select_data_positive:
  assumes sm: "strict_mono (clock E)" and i: "select_data v E n s = (Inr t, s')"
  shows "0 < t"
proof -
  from i have "t = clock E (Suc (Suc (step s))) - clock E (step s)"
    by (auto simp: select_data_def select_fetch_def time_time_def execute_def
        split: prod.splits sum.splits option.splits)
  then show ?thesis using sm by (simp add: strict_mono_def)
qed

lemma run_tier_positive:
  assumes sm: "strict_mono (clock E)" and rt: "run_tier v E n s = (Inr r, s')"
  shows "0 < op_time r opn"
proof -
  from rt obtain rs s1 ti s2 ts s3 tu s4 td s5 where
    ins: "insert_data E n s1 = (Inr ti, s2)" and
    sel: "select_data v E n (log_result (MsgOpTime Insert n ti) s2) = (Inr ts, s3)" and
    upd: "update_data v E n (log_result (MsgOpTime Select n ts) s3) = (Inr tu, s4)" and
    del: "delete_data v E n (log_result (MsgOpTime Update n tu) s4) = (Inr td, s5)" and
    r: "r = \<lparr>res_Insert = ti, res_Select = ts, res_Update = tu, res_Delete = td\<rparr>"
    by (auto simp: run_tier_def split: prod.splits sum.splits)
  have "0 < ti" using insert_data_positive [OF sm ins] .
  moreover have "0 < ts" using select_data_positive [OF sm sel] .
  moreover have "0 < tu" using update_data_Inr [OF upd] sm by (simp add: strict_mono_def)
  moreover have "0 < td" using delete_data_Inr [OF del] sm by (simp add: strict_mono_def)
  ultimately show ?thesis by (cases opn) (simp_all add: r)
qed

lemma run_test_cycle_from_positive:
  "strict_mono (clock E) \<Longrightarrow> run_test_cycle_from v E sizes acc s = (Inr res, s') \<Longrightarrow>
     \<forall>p \<in> set acc. \<forall>opn. 0 < op_time (snd p) opn \<Longrightarrow>
     \<forall>p \<in> set res. \<forall>opn. 0 < op_time (snd p) opn"
proof (induction sizes arbitrary: acc s)
  case Nil
  then show ?case by simp
next
  case (Cons sz sizes)
  from Cons.prems(2) obtain r s1 where
    rt: "run_tier v E sz s = (Inr r, s1)" and
    rest: "run_test_cycle_from v E sizes (AList.update sz r acc) s1 = (Inr res, s')"
    by (auto split: prod.splits sum.splits)
  have "\<forall>opn. 0 < op_time r opn" using run_tier_positive [OF Cons.prems(1) rt] by simp
  then have "\<forall>p \<in> set (AList.update sz r acc). \<forall>opn. 0 < op_time (snd p) opn"
    using Cons.prems(3) by (fastforce dest: set_update_values)
  from Cons.IH [OF Cons.prems(1) rest this] show ?case .
qed

lemma run_test_cycle_from_distinct:
  "run_test_cycle_from v E sizes acc s = (Inr res, s') \<Longrightarrow> distinct (map fst acc) \<Longrightarrow>
     distinct (map fst res)"
proof (induction sizes arbitrary: acc s)
  case Nil
  then show ?case by simp
next
  case (Cons sz sizes)
  from Cons.prems(1) obtain r s1 where
    "run_test_cycle_from v E sizes (AList.update sz r acc) s1 = (Inr res, s')"
    by (auto split: prod.splits sum.splits)
  from Cons.IH [OF this] Cons.prems(2) show ?case by (simp add: distinct_update)
qed

lemma run_test_cycle_from_key_order:
  "run_test_cycle_from v E sizes acc s = (Inr res, s') \<Longrightarrow> distinct sizes \<Longrightarrow>
     set sizes \<inter> fst ` set acc = {} \<Longrightarrow> map fst res = map fst acc @ sizes"
proof (induction sizes arbitrary: acc s)
  case Nil
  then show ?case by simp
next
  case (Cons sz sizes)
  from Cons.prems(1) obtain r s1 where
    rest: "run_test_cycle_from v E sizes (AList.update sz r acc) s1 = (Inr res, s')"
    by (auto split: prod.splits sum.splits)
  have new: "sz \<notin> fst ` set acc" using Cons.prems(3) by auto
  then have k: "map fst (AList.update sz r acc) = map fst acc @ [sz]"
    by (simp add: update_keys)
  have "set sizes \<inter> fst ` set (AList.update sz r acc) = {}"
    using Cons.prems(2,3) by (auto simp: dom_update)
  from Cons.IH [OF rest _ this] Cons.prems(2) show ?case by (simp add: k)
qed

lemma run_performance_tests_task6_zero_time:
  assumes c1: "run_test_cycle Indexed E test_sizes
      (log_result MsgPhaseWithout (s\<lparr>log_file := []\<rparr>)) = (Inr rwo, s1)"
    and c2: "run_test_cycle Indexed E test_sizes
      (log_result MsgPhaseWith (snd (create_indexes E s1))) = (Inr rwi, s3)"
    and z: "\<exists>p \<in> set rwo. \<exists>opn. op_time (snd p) opn = 0"
  shows "fst (run_performance_tests_task6 E test_sizes s) = Inl ZeroDivisionError"
proof -
  obtain s2 where ci: "create_indexes E s1 = (Inr (), s2)"
    using create_indexes_Inr by blast
  have c2': "run_test_cycle Indexed E test_sizes (log_result MsgPhaseWith s2) = (Inr rwi, s3)"
    using c2 by (simp add: ci)
  obtain s4 where di: "drop_indexes E s3 = (Inr (), s4)"
    using drop_indexes_Inr by blast
  have k1: "fst ` set rwo = set test_sizes"
    using run_test_cycle_from_keys [OF c1 [unfolded run_test_cycle_def]] by simp
  have k2: "fst ` set rwi = set test_sizes"
    using run_test_cycle_from_keys [OF c2 [unfolded run_test_cycle_def]] by simp
  have d: "distinct (map fst rwo)"
    using run_test_cycle_from_distinct [OF c1 [unfolded run_test_cycle_def]] by simp
  have "fst (print_comparison_table rwo rwi s4) = Inl ZeroDivisionError"
    using print_comparison_table_raises [OF d _ z] k1 k2 by simp
  then obtain s5 where "print_comparison_table rwo rwi s4 = (Inl ZeroDivisionError, s5)"
    by (metis prod.collapse)
  then show ?thesis
    by (simp add: run_performance_tests_task6_def c1 ci c2' di)
qed

lemma run_performance_tests_task6_report:
  assumes nf: "no_faults E" and sm: "strict_mono (clock E)"
  shows "\<exists>rwo rwi s' before.
     run_performance_tests_task6 E test_sizes s = (Inr (rwo, rwi), s')
     \<and> distinct (map fst rwo) \<and> set (map fst rwo) = set test_sizes
     \<and> (distinct test_sizes \<longrightarrow> map fst rwo = test_sizes)
     \<and> log_file s' = before @ [MsgComparisonTitle, MsgComparisonHeader, MsgRule]
                       @ spec_report_rows rwo rwi
     \<and> length (spec_report_rows rwo rwi) = 4 * card (set test_sizes)"
proof -
  obtain rwo s1 where c1: "run_test_cycle Indexed E test_sizes
      (log_result MsgPhaseWithout (s\<lparr>log_file := []\<rparr>)) = (Inr rwo, s1)"
    using run_test_cycle_from_ok [OF nf] unfolding run_test_cycle_def by blast
  obtain s2 where ci: "create_indexes E s1 = (Inr (), s2)"
    using create_indexes_Inr by blast
  obtain rwi s3 where c2: "run_test_cycle Indexed E test_sizes (log_result MsgPhaseWith s2) =
      (Inr rwi, s3)"
    using run_test_cycle_from_ok [OF nf] unfolding run_test_cycle_def by blast
  obtain s4 where di: "drop_indexes E s3 = (Inr (), s4)"
    using drop_indexes_Inr by blast
  have k1: "fst ` set rwo = set test_sizes"
    using run_test_cycle_from_keys [OF c1 [unfolded run_test_cycle_def]] by simp
  have k2: "fst ` set rwi = set test_sizes"
    using run_test_cycle_from_keys [OF c2 [unfolded run_test_cycle_def]] by simp
  have d: "distinct (map fst rwo)"
    using run_test_cycle_from_distinct [OF c1 [unfolded run_test_cycle_def]] by simp
  have ord: "map fst rwo = test_sizes" if "distinct test_sizes"
    using run_test_cycle_from_key_order [OF c1 [unfolded run_test_cycle_def] that] by simp
  have "\<forall>p \<in> set rwo. \<forall>opn. 0 < op_time (snd p) opn"
    using run_test_cycle_from_positive [OF sm c1 [unfolded run_test_cycle_def]] by simp
  then have nz: "\<forall>p \<in> set rwo. \<forall>opn. op_time (snd p) opn \<noteq> 0"
    by (metis less_irrefl)
  have sub: "fst ` set rwo \<subseteq> fst ` set rwi" using k1 k2 by simp
  have pr: "print_comparison_table rwo rwi s4 =
     (Inr (), s4\<lparr>log_file := log_file s4 @ [MsgComparisonTitle, MsgComparisonHeader, MsgRule]
                                @ spec_report_rows rwo rwi\<rparr>)"
    using print_comparison_table_rows [OF d sub nz] .
  have "length rwo = card (set test_sizes)"
    using d k1 distinct_card [of "map fst rwo"] by simp
  then have len: "length (spec_report_rows rwo rwi) = 4 * card (set test_sizes)"
    using length_spec_report_rows [OF sub] by simp
  have "run_performance_tests_task6 E test_sizes s =
      (Inr (rwo, rwi), s4\<lparr>log_file := log_file s4
          @ [MsgComparisonTitle, MsgComparisonHeader, MsgRule] @ spec_report_rows rwo rwi\<rparr>)"
    by (simp add: run_performance_tests_task6_def c1 ci c2 di pr)
  then show ?thesis
    using d k1 ord len by (intro exI [of _ rwo] exI [of _ rwi] exI [of _ "log_file s4"] exI) auto
qed

text \<open>
  C7: \<^verbatim>\<open>run_performance_tests\<close> runs the cycle without indexes, creates the indexes, runs
  the cycle again, drops the indexes and prints the comparison report. The report is not
  produced for every run: when the clock does not advance between the readings of the
  run, so that the measured times are \<open>0.0\<close>, the run for the sizes \<open>[1]\<close> ends with
  \<^verbatim>\<open>ZeroDivisionError\<close>, raised by the first row of the report.
  (\<open>run_performance_tests_task6_zero_time\<close>: the same happens whenever both cycles complete
  and any time without indexes is zero. \<open>run_performance_tests_task6_report\<close>: when nothing
  fails and the clock advances at every reading, the report has the rows of
  \<open>spec_report_rows\<close>, four for every distinct size.)
\<close>

theorem zero_elapsed_time_aborts_report:
  "fst (run_performance_tests_task6 env_frozen [1] state_empty) = Inl ZeroDivisionError"
proof -
  have "no_faults env_frozen" "frozen_clock env_frozen"
    by (simp_all add: no_faults_def frozen_clock_def env_frozen_def)
  then show ?thesis
    by (simp add: run_performance_tests_task6_frozen)
qed

end
